theory Spec2Isabelle
  imports Main
begin

section \<open>Qt string primitives used by the new-project dialog\<close>

text \<open>
  A \<open>QString\<close> is modelled as a \<^typ>\<open>string\<close>; one \<^typ>\<open>char\<close> stands for one
  \<open>QChar\<close> with a code below 256. \<open>int\<close> positions are natural numbers, and the
  result \<open>-1\<close> of a failed search is \<^const>\<open>None\<close>.
\<close>

definition isSpace :: "char \<Rightarrow> bool" where
  \<comment> \<open>\<open>QChar::isSpace\<close>: tab, line feed, vertical tab, form feed, carriage return,
      space, next line and no-break space.\<close>
  "isSpace c \<longleftrightarrow> c = CHR 0x09 \<or> c = CHR 0x0A \<or> c = CHR 0x0B \<or> c = CHR 0x0C
      \<or> c = CHR 0x0D \<or> c = CHR '' '' \<or> c = CHR 0x85 \<or> c = CHR 0xA0"

definition foldCase :: "char \<Rightarrow> char" where
  \<comment> \<open>Case folding as \<open>Qt::CaseInsensitive\<close> applies it to the letters A to Z.\<close>
  "foldCase c = (let n = (of_char c :: nat) in
                   if 65 \<le> n \<and> n \<le> 90 then char_of (n + 32) else c)"

definition startsWith_ci :: "string \<Rightarrow> string \<Rightarrow> bool" where
  "startsWith_ci pat s \<longleftrightarrow>
     length pat \<le> length s \<and> map foldCase (take (length pat) s) = map foldCase pat"

definition indexOf_ci :: "string \<Rightarrow> string \<Rightarrow> nat \<Rightarrow> nat option" where
  \<comment> \<open>\<open>text.indexOf(pat, from, Qt::CaseInsensitive)\<close>: the least position at or after
      \<open>from\<close> where \<open>pat\<close> occurs, letter case ignored.\<close>
  "indexOf_ci pat text from =
     find (\<lambda>i. startsWith_ci pat (drop i text)) [from..<Suc (length text)]"

definition indexOf_char :: "char \<Rightarrow> string \<Rightarrow> nat \<Rightarrow> nat option" where
  \<comment> \<open>\<open>text.indexOf(c, from)\<close>.\<close>
  "indexOf_char c text from = find (\<lambda>i. text ! i = c) [from..<length text]"

definition mid :: "string \<Rightarrow> nat \<Rightarrow> nat \<Rightarrow> string" where
  \<comment> \<open>\<open>text.mid(pos, n)\<close> for \<open>pos\<close> within the string.\<close>
  "mid text pos n = take n (drop pos text)"

definition trimmed :: "string \<Rightarrow> string" where
  \<comment> \<open>\<open>QString::trimmed\<close>: whitespace removed from both ends.\<close>
  "trimmed s = rev (dropWhile isSpace (rev (dropWhile isSpace s)))"

definition subscript :: "string \<Rightarrow> nat \<Rightarrow> char" where
  \<comment> \<open>\<open>text[i]\<close> on a non-const \<open>QString\<close>, read as a \<open>QChar\<close>: the character at
      \<open>i\<close>, and the null character when \<open>i\<close> is not below \<open>text.size()\<close>.\<close>
  "subscript text i = (if i < length text then text ! i else CHR 0x00)"

section \<open>TryGuessProjectName\<close>

function skipSpaces :: "string \<Rightarrow> nat \<Rightarrow> nat" where
  \<comment> \<open>The inner \<open>while\<close> loop that advances \<open>leftBracketPos\<close>.\<close>
  "skipSpaces text leftBracketPos =
     (if leftBracketPos < length text \<and> isSpace (text ! leftBracketPos)
      then skipSpaces text (Suc leftBracketPos)
      else leftBracketPos)"
  by pat_completeness auto
termination
  by (relation "measure (\<lambda>(text, pos). length text - pos)") auto

declare skipSpaces.simps [simp del]

function parseArguments :: "string \<Rightarrow> nat \<Rightarrow> bool \<Rightarrow> string \<Rightarrow> string" where
  \<comment> \<open>The \<open>for\<close> loop over \<open>arguments\<close>, with its loop variables \<open>i\<close>,
      \<open>haveString\<close> and \<open>projectName\<close>.\<close>
  "parseArguments arguments i haveString projectName =
     (if i < length arguments then
        (let c = arguments ! i in
         if i = 0 \<and> c = CHR 0x22 then parseArguments arguments (Suc i) True projectName
         else if haveString \<and> c = CHR 0x22 then projectName
         else if isSpace c then projectName
         else parseArguments arguments (Suc i) haveString (projectName @ [c]))
      else projectName)"
  by pat_completeness auto
termination
  by (relation "measure (\<lambda>(arguments, i, haveString, projectName). length arguments - i)") auto

declare parseArguments.simps [simp del]

function scan :: "string \<Rightarrow> nat \<Rightarrow> nat list \<times> string option" where
  \<comment> \<open>The \<open>while (true)\<close> loop, started at \<open>cursor\<close>. The second component is the
      name returned from inside the loop, or \<^const>\<open>None\<close> after \<open>break\<close>; the first
      lists, in order, the positions at which \<open>text[leftBracketPos]\<close> is read.\<close>
  "scan text cursor =
     (case indexOf_ci ''project'' text cursor of
        None \<Rightarrow> ([], None)
      | Some found \<Rightarrow>
          (let cursor' = found + 7;
               leftBracketPos = skipSpaces text cursor'
           in if subscript text leftBracketPos = CHR ''(''
              then (case indexOf_char CHR '')'' text (leftBracketPos + 1) of
                      Some rightBracketPos \<Rightarrow>
                        ([leftBracketPos],
                         Some (parseArguments
                                 (trimmed (mid text (leftBracketPos + 1)
                                             (rightBracketPos - leftBracketPos - 1)))
                                 0 False []))
                    | None \<Rightarrow> map_prod (Cons leftBracketPos) id (scan text cursor'))
              else map_prod (Cons leftBracketPos) id (scan text cursor')))"
  by pat_completeness auto
termination
proof -
  have bound: "Suc (length tx) - (p + 7) < Suc (length tx) - c"
    if "indexOf_ci ''project'' tx c = Some p" for tx c p
  proof -
    have mem: "x \<in> set xs \<and> P x" if "find P xs = Some x" for P xs and x :: nat
      using that by (induction xs) (auto split: if_splits)
    from that have "p \<in> set [c..<Suc (length tx)]" and "startsWith_ci ''project'' (drop p tx)"
      unfolding indexOf_ci_def by (auto dest: mem)
    then have "c \<le> p" and "p + 7 \<le> length tx"
      by (auto simp: startsWith_ci_def)
    then show ?thesis by arith
  qed
  show ?thesis
    by (relation "measure (\<lambda>(tx, cursor). Suc (length tx) - cursor)") (auto dest: bound)
qed

declare scan.simps [simp del]

section \<open>Paths, the file system and the dialog\<close>

text \<open>
  Paths are \<open>/\<close>-separated and normalised (no trailing or doubled separators), as
  \<open>QDir\<close> keeps them. The file system holds the directories and files that exist and
  the paths at which the process is refused. The content of a file is the text itself:
  the UTF-8 coding of \<open>toUtf8\<close> and \<open>fromUtf8\<close> is left out, which gives one byte
  each for line feed and carriage return and these bytes for no other character.
\<close>

definition beforeLastSlash :: "string \<Rightarrow> string" where
  "beforeLastSlash p = rev (drop 1 (dropWhile (\<lambda>c. c \<noteq> CHR ''/'') (rev p)))"

definition afterLastSlash :: "string \<Rightarrow> string" where
  "afterLastSlash p = rev (takeWhile (\<lambda>c. c \<noteq> CHR ''/'') (rev p))"

definition QFileInfo_dir :: "string \<Rightarrow> string" where
  \<comment> \<open>The path of \<open>QFileInfo(p).dir()\<close>.\<close>
  "QFileInfo_dir p =
     (if CHR ''/'' \<notin> set p then ''.''
      else if beforeLastSlash p = [] then ''/'' else beforeLastSlash p)"

definition dirName :: "string \<Rightarrow> string" where
  \<comment> \<open>\<open>QDir::dirName\<close>: the last component of the directory's path.\<close>
  "dirName d = afterLastSlash d"

definition QDir :: "string \<Rightarrow> string" where
  \<comment> \<open>\<open>QDir(path)\<close>; the empty path stands for the current directory.\<close>
  "QDir p = (if p = [] then ''.'' else p)"

definition filePath :: "string \<Rightarrow> string \<Rightarrow> string" where
  \<comment> \<open>\<open>QDir::filePath\<close>.\<close>
  "filePath d fileName =
     (if fileName \<noteq> [] \<and> hd fileName = CHR ''/'' then fileName
      else if fileName = [] then d
      else if d = [] \<or> last d = CHR ''/'' then d @ fileName
      else d @ ''/'' @ fileName)"

definition ancestors :: "string \<Rightarrow> string list" where
  \<comment> \<open>The directories \<open>mkpath\<close> walks through, outermost first, the root left out.\<close>
  "ancestors p = [take i p. i \<leftarrow> [1..<length p], p ! i = CHR ''/''] @ [p]"

datatype NewlineFormat = CrLf | Lf

record world =
  dirs :: "string set"
  files :: "string \<rightharpoonup> string"
  denied :: "string set"
  warnings :: "string list"

record NewProjectDialog =
  existingCMakeFilePath :: string
  nameEdit :: string
  folderEdit :: string
  defaultNewlineFormat :: NewlineFormat

fun mkpath_walk :: "string list \<Rightarrow> world \<Rightarrow> bool \<times> world" where
  "mkpath_walk [] w = (True, w)"
| "mkpath_walk (d # ds) w =
     (if d \<in> dirs w then mkpath_walk ds w
      else if d \<in> denied w \<or> d \<in> dom (files w) then (False, w)
      else mkpath_walk ds (w\<lparr>dirs := insert d (dirs w)\<rparr>))"

definition mkpath :: "string \<Rightarrow> world \<Rightarrow> bool \<times> world" where
  \<comment> \<open>\<open>QDir::mkpath\<close> on the directory itself: creates it with every missing parent;
      true also when it exists already.\<close>
  "mkpath d w = mkpath_walk (ancestors d) w"

definition mkdir :: "string \<Rightarrow> string \<Rightarrow> world \<Rightarrow> bool \<times> world" where
  \<comment> \<open>\<open>QDir::mkdir\<close>: creates one directory; false when it exists already.\<close>
  "mkdir d name w =
     (let p = filePath d name in
      if p \<in> dirs w \<or> p \<in> denied w \<or> p \<in> dom (files w) \<or> QFileInfo_dir p \<notin> dirs w
      then (False, w)
      else (True, w\<lparr>dirs := insert p (dirs w)\<rparr>))"

definition cd :: "string \<Rightarrow> string \<Rightarrow> world \<Rightarrow> bool \<times> string" where
  \<comment> \<open>\<open>QDir::cd\<close>: moves into the sub-directory when it exists, and stays otherwise.\<close>
  "cd d name w = (let p = filePath d name in if p \<in> dirs w then (True, p) else (False, d))"

definition open_write :: "string \<Rightarrow> world \<Rightarrow> bool \<times> world" where
  \<comment> \<open>\<open>QFile::open(WriteOnly | Truncate)\<close>: creates or empties the file.\<close>
  "open_write p w =
     (if p \<in> denied w \<or> p \<in> dirs w \<or> QFileInfo_dir p \<notin> dirs w then (False, w)
      else (True, w\<lparr>files := (files w)(p \<mapsto> [])\<rparr>))"

definition write_file :: "string \<Rightarrow> string \<Rightarrow> world \<Rightarrow> world" where
  \<comment> \<open>\<open>QFile::write\<close> on the opened file, then \<open>close\<close>; the source does not look
      at the result.\<close>
  "write_file p content w = w\<lparr>files := (files w)(p \<mapsto> content)\<rparr>"

definition open_read :: "string \<Rightarrow> world \<Rightarrow> string option" where
  \<comment> \<open>\<open>QFile::open(ReadOnly | Text)\<close> and \<open>readAll\<close>: the content, with every
      carriage return removed by the text mode; \<^const>\<open>None\<close> when the file cannot be
      opened.\<close>
  "open_read p w =
     (if p \<in> denied w then None
      else map_option (filter (\<lambda>c. c \<noteq> CHR 0x0D)) (files w p))"

definition warning :: "string \<Rightarrow> world \<Rightarrow> world" where
  \<comment> \<open>\<open>QMessageBox::warning\<close> with the given message.\<close>
  "warning msg w = w\<lparr>warnings := warnings w @ [msg]\<rparr>"

subsection \<open>\<open>QString::arg\<close> and \<open>QString::replace\<close>\<close>

definition digitValue :: "char \<Rightarrow> nat option" where
  \<comment> \<open>\<open>QChar::digitValue\<close> on the digits 0 to 9; \<^const>\<open>None\<close> stands for \<open>-1\<close>.\<close>
  "digitValue c = (let n = (of_char c :: nat) in if 48 \<le> n \<and> n \<le> 57 then Some (n - 48) else None)"

definition escapeAt :: "string \<Rightarrow> (nat \<times> nat) option" where
  \<comment> \<open>For the text after a \<open>%\<close>: the number of the place marker that starts there and
      the count of characters it takes after the \<open>%\<close>.\<close>
  "escapeAt cs =
     (let l = (if cs \<noteq> [] \<and> hd cs = CHR ''L'' then 1 else 0); ds = drop l cs in
      case ds of
        [] \<Rightarrow> None
      | d1 # r \<Rightarrow>
          (case digitValue d1 of
             None \<Rightarrow> None
           | Some v1 \<Rightarrow>
               (case r of
                  [] \<Rightarrow> Some (v1, l + 1)
                | d2 # _ \<Rightarrow>
                    (case digitValue d2 of
                       None \<Rightarrow> Some (v1, l + 1)
                     | Some v2 \<Rightarrow> Some (10 * v1 + v2, l + 2)))))"

fun findArgEscapes :: "nat \<Rightarrow> string \<Rightarrow> nat list" where
  \<comment> \<open>The numbers of the place markers of a string, left to right; the first argument
      counts the characters still to step over inside a marker.\<close>
  "findArgEscapes skip [] = []"
| "findArgEscapes (Suc skip) (c # cs) = findArgEscapes skip cs"
| "findArgEscapes 0 (c # cs) =
     (if c = CHR ''%'' then
        (case escapeAt cs of
           Some (n, len) \<Rightarrow> n # findArgEscapes len cs
         | None \<Rightarrow> findArgEscapes 0 cs)
      else findArgEscapes 0 cs)"

fun replaceArgEscapes :: "nat \<Rightarrow> string \<Rightarrow> nat \<Rightarrow> string \<Rightarrow> string" where
  \<comment> \<open>Every marker with the lowest number becomes the argument; the others stay.\<close>
  "replaceArgEscapes lowest a skip [] = []"
| "replaceArgEscapes lowest a (Suc skip) (c # cs) = replaceArgEscapes lowest a skip cs"
| "replaceArgEscapes lowest a 0 (c # cs) =
     (if c = CHR ''%'' then
        (case escapeAt cs of
           Some (n, len) \<Rightarrow>
             (if n = lowest then a @ replaceArgEscapes lowest a len cs
              else c # take len cs @ replaceArgEscapes lowest a len cs)
         | None \<Rightarrow> c # replaceArgEscapes lowest a 0 cs)
      else c # replaceArgEscapes lowest a 0 cs)"

definition arg :: "string \<Rightarrow> string \<Rightarrow> string" where
  \<comment> \<open>\<open>s.arg(a)\<close>: replaces the lowest-numbered place marker of \<open>s\<close>; a string
      without marker stays as it is.\<close>
  "arg s a =
     (case findArgEscapes 0 s of
        [] \<Rightarrow> s
      | n # ns \<Rightarrow> replaceArgEscapes (fold min ns n) a 0 s)"

definition replace_newlines :: "string \<Rightarrow> string" where
  \<comment> \<open>\<open>s.replace("\n", "\r\n")\<close>.\<close>
  "replace_newlines s = concat (map (\<lambda>c. if c = CHR 0x0A then [CHR 0x0D, CHR 0x0A] else [c]) s)"

definition newlined :: "NewlineFormat \<Rightarrow> string \<Rightarrow> string" where
  \<comment> \<open>The conversion applied to each generated text before it is written.\<close>
  "newlined fmt s = (if fmt = CrLf then replace_newlines s else s)"

subsection \<open>The generated texts\<close>

definition projectFileTemplate :: string where
  "projectFileTemplate =
     ''name: %1\<newline>'' @
     ''projectCMakeDir: build\<newline>'' @
     ''buildDir: build\<newline>'' @
     ''buildTarget: %2\<newline>'' @
     ''runDir: build\<newline>'' @
     ''runCmd: ./%2\<newline>''"

definition cmakeListsTemplate :: string where
  "cmakeListsTemplate =
     ''cmake_minimum_required(VERSION 3.0)\<newline>'' @
     ''\<newline>'' @
     ''project(%1)\<newline>'' @
     ''\<newline>'' @
     ''# To set a C++ standard:\<newline>'' @
     ''# set(CMAKE_CXX_STANDARD 11)\<newline>'' @
     ''\<newline>'' @
     ''add_executable(%2\<newline>'' @
     ''  src/%3/main.cc\<newline>'' @
     '')\<newline>'' @
     ''target_compile_options(%2 PUBLIC\<newline>'' @
     ''  '' @ [CHR 0x22] @ ''$<$<COMPILE_LANGUAGE:CXX>:-Wall>'' @ [CHR 0x22] @ ''\<newline>'' @
     ''  '' @ [CHR 0x22] @ '';$<$<COMPILE_LANGUAGE:CXX>:-Wextra>'' @ [CHR 0x22] @ ''\<newline>'' @
     ''  '' @ [CHR 0x22] @ '';$<$<COMPILE_LANGUAGE:CXX>:-O2>'' @ [CHR 0x22] @ ''\<newline>'' @
     ''  '' @ [CHR 0x22] @ '';$<$<COMPILE_LANGUAGE:CXX>:-msse2>'' @ [CHR 0x22] @ ''\<newline>'' @
     ''  '' @ [CHR 0x22] @ '';$<$<COMPILE_LANGUAGE:CXX>:-msse3>'' @ [CHR 0x22] @ ''\<newline>'' @
     '')\<newline>''"

definition mainFileTemplate :: string where
  "mainFileTemplate =
     ''int main(int argc, char** argv) {\<newline>'' @
     ''  \<newline>'' @
     ''}\<newline>''"

definition existingProjectFileTemplate :: string where
  "existingProjectFileTemplate =
     ''name: %1\<newline>'' @
     ''projectCMakeDir: %3\<newline>'' @
     ''buildDir: %3\<newline>'' @
     ''runDir: %3\<newline>'' @
     ''runCmd: ./%2\<newline>''"

subsection \<open>The operations of the dialog\<close>

definition CreateNewProject :: "NewProjectDialog \<Rightarrow> world \<Rightarrow> bool \<times> world" where
  "CreateNewProject dlg w0 =
     (let dir = QDir (folderEdit dlg);
          (created, w1) = mkpath dir w0
      in if \<not> created
         then (False, warning (arg ''Failed to create project directory (%1).'' dir) w1)
         else
     (let projectName = nameEdit dlg;
          binaryName = projectName;
          srcSubfolderName = projectName;
          projectFile = filePath dir (projectName @ ''.cide'');
          (opened, w2) = open_write projectFile w1
      in if \<not> opened
         then (False, warning (arg ''Failed to create project file (%1).'' projectFile) w2)
         else
     (let projectFileText =
            newlined (defaultNewlineFormat dlg)
              (arg (arg projectFileTemplate projectName) binaryName);
          w3 = write_file projectFile projectFileText w2;
          cmakeListsPath = filePath dir ''CMakeLists.txt'';
          (opened, w4) = open_write cmakeListsPath w3
      in if \<not> opened
         then (False,
               warning (arg ''Failed to create CMakeLists.txt file (%1).'' cmakeListsPath) w4)
         else
     (let cmakeListsFileText =
            newlined (defaultNewlineFormat dlg)
              (arg (arg (arg cmakeListsTemplate projectName) binaryName) srcSubfolderName);
          w5 = write_file cmakeListsPath cmakeListsFileText w4;
          srcDir = dir;
          (made, w6) = mkdir srcDir ''src'' w5;
          (entered, srcDir) = cd srcDir ''src'' w6;
          (made, w7) = mkdir srcDir srcSubfolderName w6;
          (entered, srcDir) = cd srcDir srcSubfolderName w7;
          mainPath = filePath srcDir ''main.cc'';
          (opened, w8) = open_write mainPath w7
      in if \<not> opened
         then (False, warning (arg ''Failed to create main file (%1).'' mainPath) w8)
         else
     (let mainFileText = newlined (defaultNewlineFormat dlg) mainFileTemplate;
          w9 = write_file mainPath mainFileText w8;
          (made, w10) = mkdir dir ''build'' w9
      in (True, w10))))))"

definition CreateProjectForExistingCMakeListsTxtFile ::
    "(string \<Rightarrow> string \<Rightarrow> string) \<Rightarrow> NewProjectDialog \<Rightarrow> world \<Rightarrow> bool \<times> world" where
  \<comment> \<open>The first argument is \<open>QDir::relativeFilePath\<close>, given the directory's path and
      the file name.\<close>
  "CreateProjectForExistingCMakeListsTxtFile relativeFilePath dlg w0 =
     (let projectName = nameEdit dlg;
          binaryName = projectName;
          cmakeFileDir = QFileInfo_dir (existingCMakeFilePath dlg);
          buildDirPath = folderEdit dlg;
          buildDir = QDir buildDirPath;
          (created, w1) = mkpath buildDir w0;
          projectFile = filePath cmakeFileDir (projectName @ ''.cide'');
          (opened, w2) = open_write projectFile w1
      in if \<not> opened
         then (False, warning (arg ''Failed to create project file (%1).'' projectFile) w2)
         else
     (let projectFileText =
            newlined (defaultNewlineFormat dlg)
              (arg (arg (arg existingProjectFileTemplate projectName) binaryName)
                 (relativeFilePath cmakeFileDir buildDirPath));
          w3 = write_file projectFile projectFileText w2
      in (True, w3)))"

definition CreateProject ::
    "(string \<Rightarrow> string \<Rightarrow> string) \<Rightarrow> NewProjectDialog \<Rightarrow> world \<Rightarrow> bool \<times> world" where
  "CreateProject relativeFilePath dlg w =
     (if existingCMakeFilePath dlg = [] then CreateNewProject dlg w
      else CreateProjectForExistingCMakeListsTxtFile relativeFilePath dlg w)"

definition TryGuessProjectName :: "string \<Rightarrow> world \<Rightarrow> string" where
  \<comment> \<open>The function of the source, given the dialog's \<open>existingCMakeFilePath\<close>.\<close>
  "TryGuessProjectName path w =
     (if path = [] then []
      else
        (case (case open_read path w of
                 Some text \<Rightarrow> snd (scan text 0)
               | None \<Rightarrow> None) of
           Some projectName \<Rightarrow> projectName
         | None \<Rightarrow> dirName (QFileInfo_dir path)))"

definition bracketReads :: "string \<Rightarrow> world \<Rightarrow> nat list" where
  \<comment> \<open>The positions at which a run of \<^const>\<open>TryGuessProjectName\<close> evaluates
      \<open>text[leftBracketPos]\<close>.\<close>
  "bracketReads path w =
     (if path = [] then []
      else (case open_read path w of Some text \<Rightarrow> fst (scan text 0) | None \<Rightarrow> []))"

subsection \<open>\<open>QDir::relativeFilePath\<close>\<close>

text \<open>
  The function of Qt, for absolute paths that may start with a drive letter: a file on
  another drive than the directory comes back unchanged.
\<close>

definition driveSpec :: "string \<Rightarrow> string" where
  "driveSpec p = (if 2 \<le> length p \<and> p ! 1 = CHR '':'' then take 2 p else [])"

definition isRelativePath :: "string \<Rightarrow> bool" where
  "isRelativePath p \<longleftrightarrow> (let r = drop (length (driveSpec p)) p in r = [] \<or> hd r \<noteq> CHR ''/'')"

fun splitSlash :: "string \<Rightarrow> string \<Rightarrow> string list" where
  \<comment> \<open>The non-empty parts between separators; the first argument is the part read
      so far.\<close>
  "splitSlash cur [] = (if cur = [] then [] else [cur])"
| "splitSlash cur (c # cs) =
     (if c = CHR ''/'' then (if cur = [] then splitSlash [] cs else cur # splitSlash [] cs)
      else splitSlash (cur @ [c]) cs)"

fun commonElts :: "string list \<Rightarrow> string list \<Rightarrow> nat" where
  "commonElts (a # as) (b # bs) = (if a = b then Suc (commonElts as bs) else 0)"
| "commonElts as bs = 0"

fun joinSlash :: "string list \<Rightarrow> string" where
  "joinSlash [] = []"
| "joinSlash [e] = e"
| "joinSlash (e # es) = e @ ''/'' @ joinSlash es"

definition relativeFilePath :: "string \<Rightarrow> string \<Rightarrow> string" where
  "relativeFilePath dir file =
     (if isRelativePath file \<or> isRelativePath dir then file
      else
        (let dirDrive = driveSpec dir;
             fileDrive = (if driveSpec file = [] then dirDrive else driveSpec file)
         in if map foldCase fileDrive \<noteq> map foldCase dirDrive then file
            else
              (let dirElts = splitSlash [] (drop (length dirDrive) dir);
                   fileElts = splitSlash [] (drop (length (driveSpec file)) file);
                   i = commonElts dirElts fileElts;
                   result = concat (replicate (length dirElts - i) ''../'')
                              @ joinSlash (drop i fileElts)
               in if result = [] then ''.'' else result)))"

section \<open>Notions used to state the properties\<close>

definition match_at :: "string \<Rightarrow> nat \<Rightarrow> bool" where
  \<comment> \<open>The token \<open>project\<close>, in any letter case, occurs at position \<open>p\<close>.\<close>
  "match_at text p \<longleftrightarrow> startsWith_ci ''project'' (drop p text)"

definition wellParenthesized :: "string \<Rightarrow> nat \<Rightarrow> nat \<Rightarrow> nat \<Rightarrow> bool" where
  \<comment> \<open>The occurrence at \<open>p\<close> is followed, after whitespace only, by \<open>(\<close> at \<open>lb\<close>,
      and \<open>rb\<close> is the position of the next \<open>)\<close>.\<close>
  "wellParenthesized text p lb rb \<longleftrightarrow>
     match_at text p \<and> p + 7 \<le> lb \<and> (\<forall>i \<in> {p + 7..<lb}. isSpace (text ! i)) \<and>
     lb < rb \<and> rb < length text \<and> text ! lb = CHR ''('' \<and> text ! rb = CHR '')'' \<and>
     (\<forall>i \<in> {lb + 1..<rb}. text ! i \<noteq> CHR '')'')"

definition everyLFafterCR :: "string \<Rightarrow> bool" where
  \<comment> \<open>No bare line feed: each one has a carriage return just before it.\<close>
  "everyLFafterCR c \<longleftrightarrow>
     (\<forall>i \<in> {0..<length c}. c ! i = CHR 0x0A \<longrightarrow> 0 < i \<and> c ! (i - 1) = CHR 0x0D)"

definition keeps :: "(string \<Rightarrow> bool) \<Rightarrow> world \<Rightarrow> world \<Rightarrow> bool" where
  \<comment> \<open>Every file of \<open>w'\<close> is as it was in \<open>w\<close> or has a content that satisfies \<open>P\<close>.\<close>
  "keeps P w w' \<longleftrightarrow> (\<forall>p c. files w' p = Some c \<longrightarrow> files w p = Some c \<or> P c)"

definition cmakeFile :: "string \<Rightarrow> world" where
  \<comment> \<open>A file system that holds \<open>/home/u/proj/CMakeLists.txt\<close> with the given content.\<close>
  "cmakeFile content =
     \<lparr>dirs = {''/'', ''/home'', ''/home/u'', ''/home/u/proj''},
      files = [''/home/u/proj/CMakeLists.txt'' \<mapsto> content],
      denied = {}, warnings = []\<rparr>"

definition tmpOnly :: "string set \<Rightarrow> world" where
  \<comment> \<open>A file system with the directory \<open>/tmp\<close> alone, and the given refused paths.\<close>
  "tmpOnly refused = \<lparr>dirs = {''/'', ''/tmp''}, files = Map.empty, denied = refused, warnings = []\<rparr>"

definition demoDialog :: "NewlineFormat \<Rightarrow> NewProjectDialog" where
  \<comment> \<open>The dialog for a new project \<open>Demo\<close> in \<open>/tmp/x\<close>.\<close>
  "demoDialog fmt =
     \<lparr>existingCMakeFilePath = [], nameEdit = ''Demo'', folderEdit = ''/tmp/x'',
      defaultNewlineFormat = fmt\<rparr>"

definition attachDialog :: "string \<Rightarrow> string \<Rightarrow> NewProjectDialog" where
  \<comment> \<open>The dialog for a project \<open>Demo\<close> at an existing file, with the given build
      folder.\<close>
  "attachDialog cmakePath buildFolder =
     \<lparr>existingCMakeFilePath = cmakePath, nameEdit = ''Demo'', folderEdit = buildFolder,
      defaultNewlineFormat = Lf\<rparr>"

definition twoDrives :: world where
  \<comment> \<open>A file system with \<open>C:/proj/CMakeLists.txt\<close> and a second drive \<open>D:\<close>.\<close>
  "twoDrives =
     \<lparr>dirs = {''C:'', ''C:/proj'', ''D:''},
      files = [''C:/proj/CMakeLists.txt'' \<mapsto> ''project(Demo)''],
      denied = {}, warnings = []\<rparr>"

section \<open>Facts about the searches and the scan\<close>

lemma find_upt_Some:
  "find P [c..<n] = Some p \<longleftrightarrow> c \<le> p \<and> p < n \<and> P p \<and> (\<forall>q. c \<le> q \<and> q < p \<longrightarrow> \<not> P q)"
proof
  assume "find P [c..<n] = Some p"
  then obtain i where i: "i < length [c..<n]" "P ([c..<n] ! i)" "p = [c..<n] ! i"
      "\<forall>j<i. \<not> P ([c..<n] ! j)"
    unfolding find_Some_iff by blast
  from i(1,3) have p: "p = c + i" "p < n" by auto
  have "\<not> P q" if "c \<le> q" "q < p" for q
  proof -
    from that p i(1) have "q - c < i" and "[c..<n] ! (q - c) = q" by auto
    with i(4) show ?thesis by metis
  qed
  with i p show "c \<le> p \<and> p < n \<and> P p \<and> (\<forall>q. c \<le> q \<and> q < p \<longrightarrow> \<not> P q)" by auto
next
  assume a: "c \<le> p \<and> p < n \<and> P p \<and> (\<forall>q. c \<le> q \<and> q < p \<longrightarrow> \<not> P q)"
  then have "p - c < length [c..<n]" "[c..<n] ! (p - c) = p" by auto
  moreover have "\<forall>j<p - c. \<not> P ([c..<n] ! j)" using a by auto
  ultimately show "find P [c..<n] = Some p"
    unfolding find_Some_iff using a by metis
qed

lemma find_upt_None:
  "find P [c..<n] = None \<longleftrightarrow> (\<forall>q. c \<le> q \<and> q < n \<longrightarrow> \<not> P q)"
  by (auto simp: find_None_iff)

lemma match_at_length: "match_at t p \<Longrightarrow> p + 7 \<le> length t"
  by (auto simp: match_at_def startsWith_ci_def)

lemma indexOf_ci_Some:
  "indexOf_ci ''project'' t c = Some p \<longleftrightarrow>
     c \<le> p \<and> match_at t p \<and> (\<forall>q. c \<le> q \<and> q < p \<longrightarrow> \<not> match_at t q)"
  unfolding indexOf_ci_def find_upt_Some match_at_def [symmetric]
  using match_at_length [of t p] by auto

lemma indexOf_ci_None:
  "indexOf_ci ''project'' t c = None \<longleftrightarrow> (\<forall>q. c \<le> q \<longrightarrow> \<not> match_at t q)"
  unfolding indexOf_ci_def find_upt_None match_at_def [symmetric]
  using match_at_length by fastforce

lemma indexOf_char_Some:
  "indexOf_char ch t c = Some r \<longleftrightarrow>
     c \<le> r \<and> r < length t \<and> t ! r = ch \<and> (\<forall>i. c \<le> i \<and> i < r \<longrightarrow> t ! i \<noteq> ch)"
  unfolding indexOf_char_def find_upt_Some by simp

lemma indexOf_char_None:
  "indexOf_char ch t c = None \<longleftrightarrow> (\<forall>i. c \<le> i \<and> i < length t \<longrightarrow> t ! i \<noteq> ch)"
  unfolding indexOf_char_def find_upt_None by simp

lemma length_project: "length ''project'' = 7"
  by simp

lemma foldCase_project: "map foldCase ''project'' = ''project''"
  by code_simp

lemma match_at_nth:
  assumes "match_at t p" and "k < 7"
  shows "foldCase (t ! (p + k)) = ''project'' ! k"
proof -
  from assms(1) have len: "p + 7 \<le> length t"
    by (rule match_at_length)
  from assms(1) have eq: "map foldCase (take 7 (drop p t)) = ''project''"
    unfolding match_at_def startsWith_ci_def foldCase_project length_project by simp
  from eq have "map foldCase (take 7 (drop p t)) ! k = ''project'' ! k" by simp
  moreover from len assms(2) have "map foldCase (take 7 (drop p t)) ! k = foldCase (t ! (p + k))"
    by simp
  ultimately show ?thesis by simp
qed

lemma match_at_first: "match_at t p \<Longrightarrow> foldCase (t ! p) = CHR ''p''"
  using match_at_nth [of t p 0] by simp

lemma match_at_no_overlap:
  assumes "match_at t p" and "match_at t q" and "p < q"
  shows "p + 7 \<le> q"
proof (rule ccontr)
  assume "\<not> p + 7 \<le> q"
  with assms(3) obtain k where k: "q = p + k" "0 < k" "k < 7"
    by (metis less_imp_add_positive nat_add_left_cancel_less not_le)
  from match_at_nth [OF assms(1) k(3)] match_at_first [OF assms(2)] k(1)
  have "''project'' ! k = CHR ''p''" by simp
  with k(2,3) show False
    by (cases k rule: nat.exhaust) (auto simp: nth_Cons split: nat.splits)
qed

lemma skipSpaces_ge: "c \<le> skipSpaces t c"
  by (induction t c rule: skipSpaces.induct) (subst skipSpaces.simps, auto dest: Suc_leD)

lemma skipSpaces_between:
  "c \<le> i \<Longrightarrow> i < skipSpaces t c \<Longrightarrow> i < length t \<and> isSpace (t ! i)"
proof (induction t c rule: skipSpaces.induct)
  case (1 t c)
  show ?case
  proof (cases "c < length t \<and> isSpace (t ! c)")
    case True
    with "1.prems" have "i < skipSpaces t (Suc c)" by (subst (asm) skipSpaces.simps) simp
    with True "1.IH" "1.prems"(1) show ?thesis by (cases "i = c") auto
  next
    case False
    with "1.prems" show ?thesis by (subst (asm) skipSpaces.simps) auto
  qed
qed

lemma skipSpaces_stop:
  "skipSpaces t c < length t \<Longrightarrow> \<not> isSpace (t ! skipSpaces t c)"
proof (induction t c rule: skipSpaces.induct)
  case (1 t c)
  show ?case
  proof (cases "c < length t \<and> isSpace (t ! c)")
    case True
    then have "skipSpaces t c = skipSpaces t (Suc c)" by (subst skipSpaces.simps) simp
    with True "1.IH" "1.prems" show ?thesis by simp
  next
    case False
    then have "skipSpaces t c = c" by (subst skipSpaces.simps) auto
    with False "1.prems" show ?thesis by simp
  qed
qed

lemma skipSpaces_le_nonspace:
  assumes "c \<le> j" and "j < length t" and "\<not> isSpace (t ! j)"
  shows "skipSpaces t c \<le> j"
proof (rule ccontr)
  assume "\<not> skipSpaces t c \<le> j"
  then have "j < skipSpaces t c" by simp
  from skipSpaces_between [OF assms(1) this] assms(3) show False by simp
qed

lemma skipSpaces_eq:
  assumes "c \<le> lb" and "lb < length t" and "\<not> isSpace (t ! lb)"
    and "\<forall>i. c \<le> i \<and> i < lb \<longrightarrow> isSpace (t ! i)"
  shows "skipSpaces t c = lb"
proof -
  have "skipSpaces t c \<le> lb" using assms(1-3) by (rule skipSpaces_le_nonspace)
  moreover have "\<not> skipSpaces t c < lb"
  proof
    assume less: "skipSpaces t c < lb"
    with assms(2) have "skipSpaces t c < length t" by simp
    then have "\<not> isSpace (t ! skipSpaces t c)" by (rule skipSpaces_stop)
    with assms(4) less skipSpaces_ge [of c t] show False by blast
  qed
  ultimately show ?thesis by simp
qed

lemma not_isSpace_paren: "\<not> isSpace CHR ''(''"
  by (simp add: isSpace_def)

lemma loop_body_of_wellParenthesized:
  assumes "wellParenthesized t p lb rb"
  shows "skipSpaces t (p + 7) = lb" and "subscript t lb = CHR ''(''"
    and "indexOf_char CHR '')'' t (lb + 1) = Some rb"
proof -
  from assms have facts: "p + 7 \<le> lb" "\<forall>i. p + 7 \<le> i \<and> i < lb \<longrightarrow> isSpace (t ! i)"
      "lb < rb" "rb < length t" "t ! lb = CHR ''(''" "t ! rb = CHR '')''"
      "\<forall>i. lb + 1 \<le> i \<and> i < rb \<longrightarrow> t ! i \<noteq> CHR '')''"
    by (auto simp: wellParenthesized_def)
  from facts have lb: "lb < length t" by simp
  with facts(5) have "\<not> isSpace (t ! lb)" by (simp add: not_isSpace_paren)
  then show "skipSpaces t (p + 7) = lb" using facts(1,2) lb by (intro skipSpaces_eq) auto
  from lb facts(5) show "subscript t lb = CHR ''(''" by (simp add: subscript_def)
  from facts show "indexOf_char CHR '')'' t (lb + 1) = Some rb"
    unfolding indexOf_char_Some by simp
qed

lemma wellParenthesized_of_loop_body:
  assumes "match_at t p" and "subscript t (skipSpaces t (p + 7)) = CHR ''(''"
    and "indexOf_char CHR '')'' t (skipSpaces t (p + 7) + 1) = Some rb"
  shows "wellParenthesized t p (skipSpaces t (p + 7)) rb"
proof -
  let ?lb = "skipSpaces t (p + 7)"
  from assms(2) have "?lb < length t \<and> t ! ?lb = CHR ''(''"
    by (auto simp: subscript_def split: if_splits)
  moreover from assms(3) have "?lb < rb \<and> rb < length t \<and> t ! rb = CHR '')'' \<and>
      (\<forall>i. ?lb + 1 \<le> i \<and> i < rb \<longrightarrow> t ! i \<noteq> CHR '')'')"
    unfolding indexOf_char_Some by auto
  moreover have "\<forall>i \<in> {p + 7..<?lb}. isSpace (t ! i)"
    using skipSpaces_between [of "p + 7" _ t] by auto
  ultimately show ?thesis
    using assms(1) skipSpaces_ge [of "p + 7" t] by (auto simp: wellParenthesized_def)
qed

lemma foldCase_p_not_space: "foldCase c = CHR ''p'' \<Longrightarrow> \<not> isSpace c"
  by (auto simp: foldCase_def isSpace_def Let_def split: if_splits)

lemma scan_first_wellParenthesized:
  assumes "wellParenthesized t p lb rb" and "c \<le> p"
    and "\<forall>q. c \<le> q \<and> q < p \<longrightarrow> (\<forall>lb' rb'. \<not> wellParenthesized t q lb' rb')"
  shows "snd (scan t c) =
           Some (parseArguments (trimmed (mid t (lb + 1) (rb - lb - 1))) 0 False []) \<and>
         (\<forall>i \<in> set (fst (scan t c)). i \<le> lb)"
  using assms
proof (induction t c rule: scan.induct)
  case (1 t c)
  note wp = "1.prems"(1) and cp = "1.prems"(2) and earlier = "1.prems"(3)
  from wp have mp: "match_at t p" by (simp add: wellParenthesized_def)
  with cp obtain found where found: "indexOf_ci ''project'' t c = Some found"
    using indexOf_ci_None [of t c] by (cases "indexOf_ci ''project'' t c") auto
  then have f: "c \<le> found" "match_at t found" "\<forall>q. c \<le> q \<and> q < found \<longrightarrow> \<not> match_at t q"
    unfolding indexOf_ci_Some by auto
  with mp cp have le: "found \<le> p" by (meson not_le)
  show ?case
  proof (cases "found = p")
    case True
    with found loop_body_of_wellParenthesized [OF wp] show ?thesis
      by (subst (1 2) scan.simps) simp
  next
    case False
    with le have less: "found < p" by simp
    with f(2) mp have next_le: "found + 7 \<le> p" by (rule match_at_no_overlap)
    let ?lb = "skipSpaces t (found + 7)"
    from earlier f(1) less have invalid: "\<not> wellParenthesized t found ?lb r" for r by blast
    have no_return: "subscript t ?lb = CHR ''('' \<Longrightarrow> indexOf_char CHR '')'' t (?lb + 1) = None"
      using wellParenthesized_of_loop_body [OF f(2)] invalid
      by (cases "indexOf_char CHR '')'' t (?lb + 1)") auto
    from mp have "p < length t" "\<not> isSpace (t ! p)"
      using match_at_length [of t p] match_at_first [of t p] foldCase_p_not_space by auto
    with next_le have "?lb \<le> p" by (intro skipSpaces_le_nonspace)
    moreover from wp have "p \<le> lb" by (simp add: wellParenthesized_def)
    ultimately have here: "?lb \<le> lb" by simp
    have prems': "\<forall>q. found + 7 \<le> q \<and> q < p \<longrightarrow> (\<forall>lb' rb'. \<not> wellParenthesized t q lb' rb')"
      using earlier f(1) by auto
    show ?thesis
    proof (cases "subscript t ?lb = CHR ''(''")
      case True
      with no_return have none: "indexOf_char CHR '')'' t (?lb + 1) = None" by simp
      from "1.IH"(1) [OF found refl refl True none wp next_le prems'] True none found here
      show ?thesis by (subst (1 2) scan.simps) (simp add: Let_def)
    next
      case False
      from "1.IH"(2) [OF found refl refl False wp next_le prems'] False found here
      show ?thesis by (subst (1 2) scan.simps) (simp add: Let_def)
    qed
  qed
qed

lemma TryGuessProjectName_scan:
  assumes "path \<noteq> []" and "open_read path w = Some t"
  shows "TryGuessProjectName path w =
           (case snd (scan t 0) of Some n \<Rightarrow> n | None \<Rightarrow> dirName (QFileInfo_dir path))"
    and "bracketReads path w = fst (scan t 0)"
  using assms by (simp_all add: TryGuessProjectName_def bracketReads_def)

lemma trimmed_without_space:
  assumes "\<forall>c \<in> set s. \<not> isSpace c"
  shows "trimmed s = s"
proof -
  have keep: "dropWhile isSpace xs = xs" if "\<forall>c \<in> set xs. \<not> isSpace c" for xs
    using that by (cases xs) auto
  from assms have "dropWhile isSpace s = s" by (rule keep)
  moreover from assms have "dropWhile isSpace (rev s) = rev s" by (intro keep) simp
  ultimately show ?thesis by (simp add: trimmed_def)
qed

lemma parseArguments_plain:
  assumes "\<forall>c \<in> set (drop i a). \<not> isSpace c \<and> c \<noteq> CHR 0x22"
  shows "parseArguments a i h acc = acc @ drop i a"
  using assms
proof (induction a i h acc rule: parseArguments.induct)
  case (1 a i h acc)
  show ?case
  proof (cases "i < length a")
    case True
    then have split: "drop i a = a ! i # drop (Suc i) a" by (simp add: Cons_nth_drop_Suc)
    with "1.prems" have here: "\<not> isSpace (a ! i)" "a ! i \<noteq> CHR 0x22"
      and rest: "\<forall>c \<in> set (drop (Suc i) a). \<not> isSpace c \<and> c \<noteq> CHR 0x22"
      by auto
    from "1.IH"(2) [OF True refl _ _ _ rest] True here split
    show ?thesis by (subst parseArguments.simps) auto
  next
    case False
    then show ?thesis by (subst parseArguments.simps) simp
  qed
qed

lemma isSpace_not_quote: "isSpace c \<Longrightarrow> c \<noteq> CHR 0x22"
  by (auto simp: isSpace_def)

lemma parseArguments_stops:
  assumes "drop i a = name @ rest"
    and "\<forall>c \<in> set name. \<not> isSpace c \<and> c \<noteq> CHR 0x22"
    and "rest = [] \<or> isSpace (hd rest) \<or> (h \<and> 0 < i \<and> hd rest = CHR 0x22)"
  shows "parseArguments a i h acc = acc @ name"
  using assms
proof (induction name arbitrary: i acc)
  case Nil
  show ?case
  proof (cases "rest = []")
    case True
    with Nil.prems(1) have "\<not> i < length a" by simp
    then show ?thesis by (subst parseArguments.simps) simp
  next
    case False
    with Nil.prems(1) have i: "i < length a" and here: "a ! i = hd rest"
      by (auto simp: hd_drop_conv_nth [symmetric] intro: ccontr)
    from False Nil.prems(3) have "isSpace (hd rest) \<or> (h \<and> 0 < i \<and> hd rest = CHR 0x22)"
      by simp
    with i here show ?thesis
      by (subst parseArguments.simps) (auto simp: Let_def dest: isSpace_not_quote)
  qed
next
  case (Cons c name)
  from Cons.prems(1) have i: "i < length a"
    by (auto intro: ccontr)
  with Cons.prems(1) have here: "a ! i = c" and after: "drop (Suc i) a = name @ rest"
    by (simp_all add: Cons_nth_drop_Suc [symmetric])
  from Cons.prems(2) have plain: "\<not> isSpace c" "c \<noteq> CHR 0x22"
    and others: "\<forall>c \<in> set name. \<not> isSpace c \<and> c \<noteq> CHR 0x22"
    by simp_all
  from Cons.prems(3) have stop: "rest = [] \<or> isSpace (hd rest) \<or> (h \<and> 0 < Suc i \<and> hd rest = CHR 0x22)"
    by auto
  from Cons.IH [OF after others stop, of "acc @ [c]"] i here plain
  show ?case by (subst parseArguments.simps) (simp add: Let_def)
qed

lemma untrimmed_tail:
  "rev (dropWhile P (rev xs)) = [] \<or>
   (xs \<noteq> [] \<and> hd (rev (dropWhile P (rev xs))) = hd xs)"
proof -
  have "xs = rev (dropWhile P (rev xs)) @ rev (takeWhile P (rev xs))"
    by (metis rev_append rev_rev_ident takeWhile_dropWhile_id)
  then show ?thesis by (metis append_is_Nil_conv hd_append2)
qed

lemma trimmed_core:
  assumes "\<forall>c \<in> set ws. isSpace c" and "u \<noteq> []"
    and "\<not> isSpace (hd u)" and "\<not> isSpace (last u)"
  shows "\<exists>rest'. trimmed (ws @ u @ rest) = u @ rest' \<and>
           (rest' = [] \<or> (rest \<noteq> [] \<and> hd rest' = hd rest))"
proof -
  from assms(1-3) have front: "dropWhile isSpace (ws @ u @ rest) = u @ rest"
    by (cases u) (simp_all add: dropWhile_append)
  from assms(2,4) have tail_kept: "dropWhile isSpace (rev u) = rev u"
    by (cases "rev u") (simp_all add: last_rev [symmetric] hd_rev)
  have "dropWhile isSpace (rev (u @ rest)) = dropWhile isSpace (rev rest) @ rev u"
    using tail_kept by (simp add: dropWhile_append)
  then have "trimmed (ws @ u @ rest) = u @ rev (dropWhile isSpace (rev rest))"
    by (simp add: trimmed_def front)
  with untrimmed_tail [of isSpace rest] show ?thesis by blast
qed

lemma trimmed_all_spaces:
  assumes "\<forall>c \<in> set ws. isSpace c"
  shows "trimmed ws = []"
proof -
  from assms have "dropWhile isSpace ws = []" by (simp add: dropWhile_eq_Nil_conv)
  then show ?thesis unfolding trimmed_def by (simp only: rev.simps dropWhile.simps)
qed

lemma guess_plain:
  assumes "\<forall>c \<in> set ws. isSpace c"
    and "\<forall>c \<in> set name. \<not> isSpace c \<and> c \<noteq> CHR 0x22"
    and "rest = [] \<or> (name \<noteq> [] \<and> isSpace (hd rest))"
  shows "parseArguments (trimmed (ws @ name @ rest)) 0 False [] = name"
proof (cases "name = []")
  case True
  with assms(3) have "rest = []" by simp
  with True assms(1) have "trimmed (ws @ name @ rest) = []" by (simp add: trimmed_all_spaces)
  with True show ?thesis by (subst parseArguments.simps) simp
next
  case False
  with assms(2) have "\<not> isSpace (hd name)" "\<not> isSpace (last name)" by simp_all
  from trimmed_core [OF assms(1) False this, of rest]
  obtain rest' where t: "trimmed (ws @ name @ rest) = name @ rest'"
    and r: "rest' = [] \<or> (rest \<noteq> [] \<and> hd rest' = hd rest)" by blast
  from r assms(3) have "rest' = [] \<or> isSpace (hd rest') \<or> (False \<and> 0 < (0::nat) \<and> hd rest' = CHR 0x22)"
    by auto
  with parseArguments_stops [of 0 "name @ rest'" name rest' False "[]"] assms(2)
  show ?thesis by (simp add: t)
qed

lemma guess_quoted:
  assumes "\<forall>c \<in> set ws. isSpace c"
    and "\<forall>c \<in> set name. \<not> isSpace c \<and> c \<noteq> CHR 0x22"
  shows "parseArguments (trimmed (ws @ [CHR 0x22] @ name @ [CHR 0x22] @ rest)) 0 False [] = name"
proof -
  let ?u = "[CHR 0x22] @ name @ [CHR 0x22]"
  have "?u \<noteq> []" "\<not> isSpace (hd ?u)" "\<not> isSpace (last ?u)"
    by (simp_all add: isSpace_def)
  from trimmed_core [OF assms(1) this, of rest]
  obtain rest' where t: "trimmed (ws @ ?u @ rest) = ?u @ rest'" by blast
  have "parseArguments (?u @ rest') 0 False [] = parseArguments (?u @ rest') (Suc 0) True []"
    by (subst parseArguments.simps) (simp add: Let_def)
  also have "\<dots> = [] @ name"
    by (rule parseArguments_stops [where rest = "CHR 0x22 # rest'"]) (use assms(2) in simp_all)
  finally show ?thesis using t by simp
qed

lemma scan_no_wellParenthesized:
  assumes "\<forall>p lb rb. c \<le> p \<longrightarrow> \<not> wellParenthesized t p lb rb"
  shows "snd (scan t c) = None"
  using assms
proof (induction t c rule: scan.induct)
  case (1 t c)
  show ?case
  proof (cases "indexOf_ci ''project'' t c")
    case None
    then show ?thesis by (subst scan.simps) simp
  next
    case (Some found)
    then have f: "c \<le> found" "match_at t found" unfolding indexOf_ci_Some by auto
    let ?lb = "skipSpaces t (found + 7)"
    from "1.prems" f(1) have invalid: "\<not> wellParenthesized t found ?lb r" for r by blast
    have no_return: "subscript t ?lb = CHR ''('' \<Longrightarrow> indexOf_char CHR '')'' t (?lb + 1) = None"
      using wellParenthesized_of_loop_body [OF f(2)] invalid
      by (cases "indexOf_char CHR '')'' t (?lb + 1)") auto
    have prems': "\<forall>p lb rb. found + 7 \<le> p \<longrightarrow> \<not> wellParenthesized t p lb rb"
      using "1.prems" f(1) by auto
    show ?thesis
    proof (cases "subscript t ?lb = CHR ''(''")
      case True
      with no_return have none: "indexOf_char CHR '')'' t (?lb + 1) = None" by simp
      from "1.IH"(1) [OF Some refl refl True none prems'] True none Some
      show ?thesis by (subst scan.simps) (simp add: Let_def)
    next
      case False
      from "1.IH"(2) [OF Some refl refl False prems'] False Some
      show ?thesis by (subst scan.simps) (simp add: Let_def)
    qed
  qed
qed

lemma scan_None_excludes:
  assumes "snd (scan t 0) = None"
  shows "\<not> wellParenthesized t p lb rb"
proof
  assume "wellParenthesized t p lb rb"
  then have "\<exists>q. \<exists>l r. wellParenthesized t q l r" by blast
  then obtain m where "\<exists>l r. wellParenthesized t m l r"
    and least: "\<forall>q<m. \<not> (\<exists>l r. wellParenthesized t q l r)"
    unfolding exists_least_iff [of "\<lambda>q. \<exists>l r. wellParenthesized t q l r"] by blast
  then obtain l r where wp: "wellParenthesized t m l r" by blast
  from least have "\<forall>q. 0 \<le> q \<and> q < m \<longrightarrow> (\<forall>lb' rb'. \<not> wellParenthesized t q lb' rb')"
    by blast
  from scan_first_wellParenthesized [OF wp _ this] assms show False by simp
qed

section \<open>Properties of the name guesser\<close>

text \<open>
  C1. For \<open>project("Foo Bar")\<close> the guesser should give the whole quoted name
  \<open>Foo Bar\<close>. The loop of the source tests for whitespace also inside a quoted name,
  and returns \<open>Foo\<close>.
\<close>

theorem C1_quoted_name_cut_at_space:
  "TryGuessProjectName ''/home/u/proj/CMakeLists.txt''
     (cmakeFile (''project('' @ [CHR 0x22] @ ''Foo Bar'' @ [CHR 0x22] @ '')'')) = ''Foo''"
  by code_simp

text \<open>
  C6. The guesser returns the name of the first occurrence of \<open>project\<close> that is
  followed by \<open>(\<close> and a later \<open>)\<close>, whatever this name is, and makes no bracket test
  beyond this occurrence: later occurrences have no part in the result, even when the
  name is empty and a later one would give a name. When the text between these
  parentheses is whitespace, then a name free of whitespace and quotes, then nothing or
  text that starts with whitespace, the result is this name, empty or not; and it is the
  name between two quotes when that name is free of whitespace.
\<close>

theorem C6_first_well_parenthesized_match_is_returned:
  assumes "path \<noteq> []" and "open_read path w = Some text"
    and "wellParenthesized text p lb rb"
    and "\<forall>q \<in> {0..<p}. \<forall>lb' rb'. \<not> wellParenthesized text q lb' rb'"
  shows "TryGuessProjectName path w =
           parseArguments (trimmed (mid text (lb + 1) (rb - lb - 1))) 0 False [] \<and>
         (\<forall>i \<in> set (bracketReads path w). i \<le> lb) \<and>
         (\<forall>ws name rest.
            take (rb - lb - 1) (drop (lb + 1) text) = ws @ name @ rest \<and>
            (\<forall>c \<in> set ws. isSpace c) \<and>
            (\<forall>c \<in> set name. \<not> isSpace c \<and> c \<noteq> CHR 0x22) \<and>
            (rest = [] \<or> (name \<noteq> [] \<and> isSpace (hd rest))) \<longrightarrow>
            TryGuessProjectName path w = name) \<and>
         (\<forall>ws name rest.
            take (rb - lb - 1) (drop (lb + 1) text) = ws @ [CHR 0x22] @ name @ [CHR 0x22] @ rest \<and>
            (\<forall>c \<in> set ws. isSpace c) \<and>
            (\<forall>c \<in> set name. \<not> isSpace c \<and> c \<noteq> CHR 0x22) \<longrightarrow>
            TryGuessProjectName path w = name)"
proof -
  from assms(4) have "\<forall>q. 0 \<le> q \<and> q < p \<longrightarrow> (\<forall>lb' rb'. \<not> wellParenthesized text q lb' rb')"
    by simp
  from scan_first_wellParenthesized [OF assms(3) _ this]
  have result: "TryGuessProjectName path w =
      parseArguments (trimmed (mid text (lb + 1) (rb - lb - 1))) 0 False []"
    and reads: "\<forall>i \<in> set (bracketReads path w). i \<le> lb"
    by (simp_all add: TryGuessProjectName_scan [OF assms(1,2)])
  have unquoted: "\<forall>ws name rest.
      take (rb - lb - 1) (drop (lb + 1) text) = ws @ name @ rest \<and>
      (\<forall>c \<in> set ws. isSpace c) \<and>
      (\<forall>c \<in> set name. \<not> isSpace c \<and> c \<noteq> CHR 0x22) \<and>
      (rest = [] \<or> (name \<noteq> [] \<and> isSpace (hd rest))) \<longrightarrow>
      TryGuessProjectName path w = name"
  proof (intro allI impI, elim conjE)
    fix ws name rest
    assume region: "take (rb - lb - 1) (drop (lb + 1) text) = ws @ name @ rest"
      and ws: "\<forall>c \<in> set ws. isSpace c"
      and name: "\<forall>c \<in> set name. \<not> isSpace c \<and> c \<noteq> CHR 0x22"
      and rest: "rest = [] \<or> (name \<noteq> [] \<and> isSpace (hd rest))"
    from region have "mid text (lb + 1) (rb - lb - 1) = ws @ name @ rest"
      by (simp only: mid_def)
    with result guess_plain [OF ws name rest] show "TryGuessProjectName path w = name"
      by (simp only:)
  qed
  have quoted: "\<forall>ws name rest.
      take (rb - lb - 1) (drop (lb + 1) text) = ws @ [CHR 0x22] @ name @ [CHR 0x22] @ rest \<and>
      (\<forall>c \<in> set ws. isSpace c) \<and>
      (\<forall>c \<in> set name. \<not> isSpace c \<and> c \<noteq> CHR 0x22) \<longrightarrow>
      TryGuessProjectName path w = name"
  proof (intro allI impI, elim conjE)
    fix ws name rest
    assume region: "take (rb - lb - 1) (drop (lb + 1) text) =
        ws @ [CHR 0x22] @ name @ [CHR 0x22] @ rest"
      and ws: "\<forall>c \<in> set ws. isSpace c"
      and name: "\<forall>c \<in> set name. \<not> isSpace c \<and> c \<noteq> CHR 0x22"
    from region have "mid text (lb + 1) (rb - lb - 1) = ws @ [CHR 0x22] @ name @ [CHR 0x22] @ rest"
      by (simp only: mid_def)
    with result guess_quoted [OF ws name, of rest] show "TryGuessProjectName path w = name"
      by (simp only:)
  qed
  from result reads unquoted quoted show ?thesis by (intro conjI)
qed

theorem C6_first_match_witness:
  "wellParenthesized ''project x project() project(B)'' 10 17 18 \<and>
   wellParenthesized ''project x project() project(B)'' 20 27 29 \<and>
   TryGuessProjectName ''/home/u/proj/CMakeLists.txt''
     (cmakeFile ''project x project() project(B)'') = [] \<and>
   bracketReads ''/home/u/proj/CMakeLists.txt''
     (cmakeFile ''project x project() project(B)'') = [8, 17] \<and>
   wellParenthesized ''project x project( Foo bar ) project(B)'' 10 17 27 \<and>
   wellParenthesized ''project x project( Foo bar ) project(B)'' 29 36 38 \<and>
   TryGuessProjectName ''/home/u/proj/CMakeLists.txt''
     (cmakeFile ''project x project( Foo bar ) project(B)'') = ''Foo''"
proof -
  let ?t = "''project x project() project(B)''"
  let ?u = "''project x project( Foo bar ) project(B)''"
  have ne: "''/home/u/proj/CMakeLists.txt'' \<noteq> []" by simp
  have readable_t: "open_read ''/home/u/proj/CMakeLists.txt'' (cmakeFile ?t) = Some ?t"
    and readable_u: "open_read ''/home/u/proj/CMakeLists.txt'' (cmakeFile ?u) = Some ?u"
    by code_simp+
  have second_t: "wellParenthesized ?t 10 17 18" and third_t: "wellParenthesized ?t 20 27 29"
    and second_u: "wellParenthesized ?u 10 17 27" and third_u: "wellParenthesized ?u 29 36 38"
    by code_simp+
  have others_t: "\<forall>q \<in> {1..<10}. \<not> match_at ?t q"
    and others_u: "\<forall>q \<in> {1..<10}. \<not> match_at ?u q"
    by code_simp+
  have stops_t: "skipSpaces ?t (0 + 7) = 8" and no_bracket_t: "subscript ?t 8 \<noteq> CHR ''(''"
    and stops_u: "skipSpaces ?u (0 + 7) = 8" and no_bracket_u: "subscript ?u 8 \<noteq> CHR ''(''"
    by code_simp+
  have earlier_t: "\<forall>q \<in> {0..<10}. \<forall>lb' rb'. \<not> wellParenthesized ?t q lb' rb'"
  proof (intro ballI allI notI)
    fix q lb' rb' assume q: "q \<in> {0..<10}" and wp: "wellParenthesized ?t q lb' rb'"
    show False
    proof (cases "q = 0")
      case True
      with loop_body_of_wellParenthesized(1,2) [OF wp] stops_t no_bracket_t
      show False by simp
    next
      case False
      with q others_t have "\<not> match_at ?t q" by simp
      with wp show False by (simp add: wellParenthesized_def)
    qed
  qed
  have earlier_u: "\<forall>q \<in> {0..<10}. \<forall>lb' rb'. \<not> wellParenthesized ?u q lb' rb'"
  proof (intro ballI allI notI)
    fix q lb' rb' assume q: "q \<in> {0..<10}" and wp: "wellParenthesized ?u q lb' rb'"
    show False
    proof (cases "q = 0")
      case True
      with loop_body_of_wellParenthesized(1,2) [OF wp] stops_u no_bracket_u
      show False by simp
    next
      case False
      with q others_u have "\<not> match_at ?u q" by simp
      with wp show False by (simp add: wellParenthesized_def)
    qed
  qed
  have region_t: "take (18 - 17 - 1) (drop (17 + 1) ?t) = [] @ [] @ []"
    and region_u: "take (27 - 17 - 1) (drop (17 + 1) ?u) = '' '' @ ''Foo'' @ '' bar ''"
    by code_simp+
  have spaces: "\<forall>c \<in> set '' ''. isSpace c" and plain: "\<forall>c \<in> set ''Foo''. \<not> isSpace c \<and> c \<noteq> CHR 0x22"
    and stop: "'' bar '' = [] \<or> (''Foo'' \<noteq> [] \<and> isSpace (hd '' bar ''))"
    by code_simp+
  have reads: "bracketReads ''/home/u/proj/CMakeLists.txt'' (cmakeFile ?t) = [8, 17]"
    by code_simp
  note first_t = C6_first_well_parenthesized_match_is_returned [OF ne readable_t second_t earlier_t]
  note first_u = C6_first_well_parenthesized_match_is_returned [OF ne readable_u second_u earlier_u]
  have spaces_t: "\<forall>c \<in> set ([] :: string). isSpace c"
    and plain_t: "\<forall>c \<in> set ([] :: string). \<not> isSpace c \<and> c \<noteq> CHR 0x22"
    and stop_t: "([] :: string) = [] \<or> (([] :: string) \<noteq> [] \<and> isSpace (hd []))"
    by simp_all
  note unquoted_t = first_t [THEN conjunct2, THEN conjunct2, THEN conjunct1, rule_format]
  note unquoted_u = first_u [THEN conjunct2, THEN conjunct2, THEN conjunct1, rule_format]
  have "TryGuessProjectName ''/home/u/proj/CMakeLists.txt'' (cmakeFile ?t) = []"
    by (rule unquoted_t [OF conjI [OF region_t conjI [OF spaces_t conjI [OF plain_t stop_t]]]])
  moreover
  have "TryGuessProjectName ''/home/u/proj/CMakeLists.txt'' (cmakeFile ?u) = ''Foo''"
    by (rule unquoted_u [OF conjI [OF region_u conjI [OF spaces conjI [OF plain stop]]]])
  ultimately show ?thesis using second_t third_t second_u third_u reads by (intro conjI)
qed

text \<open>
  C7. The guesser returns the last component of the path of the configuration file's
  directory whenever the text is empty or holds no \<open>)\<close>, as a text with \<open>project(\<close>
  and no closing \<open>)\<close> anywhere does, and more generally whenever no occurrence of
  \<open>project\<close> is followed by \<open>(\<close> and a later \<open>)\<close>.
\<close>

theorem C7_fallback_without_closing_parenthesis:
  assumes "path \<noteq> []" and "open_read path w = Some text"
    and "text = [] \<or> CHR '')'' \<notin> set text \<or> (\<forall>p lb rb. \<not> wellParenthesized text p lb rb)"
  shows "TryGuessProjectName path w = dirName (QFileInfo_dir path)"
proof -
  have "\<not> wellParenthesized text p lb rb" for p lb rb
  proof
    assume wp: "wellParenthesized text p lb rb"
    then have "rb < length text" and "text ! rb = CHR '')''"
      by (simp_all add: wellParenthesized_def)
    then have "text \<noteq> []" and "CHR '')'' \<in> set text" by (auto simp: in_set_conv_nth)
    with assms(3) have "\<forall>p lb rb. \<not> wellParenthesized text p lb rb" by simp
    with wp show False by simp
  qed
  then have "snd (scan text 0) = None" by (intro scan_no_wellParenthesized) simp
  then show ?thesis by (simp add: TryGuessProjectName_scan [OF assms(1,2)])
qed

theorem C7_fallback_witness:
  "TryGuessProjectName ''/home/u/proj/CMakeLists.txt'' (cmakeFile []) = ''proj'' \<and>
   TryGuessProjectName ''/home/u/proj/CMakeLists.txt'' (cmakeFile ''project(Foo'') = ''proj'' \<and>
   TryGuessProjectName ''/home/u/proj/CMakeLists.txt''
     (cmakeFile ''project_dir(x) project(Foo'') = ''proj''"
proof -
  let ?t = "''project_dir(x) project(Foo''"
  have ne: "''/home/u/proj/CMakeLists.txt'' \<noteq> []" by simp
  have name: "dirName (QFileInfo_dir ''/home/u/proj/CMakeLists.txt'') = ''proj''"
    by code_simp
  have empty: "open_read ''/home/u/proj/CMakeLists.txt'' (cmakeFile []) = Some []"
    and unclosed: "open_read ''/home/u/proj/CMakeLists.txt'' (cmakeFile ''project(Foo'')
      = Some ''project(Foo''"
    and mixed: "open_read ''/home/u/proj/CMakeLists.txt'' (cmakeFile ?t) = Some ?t"
    by code_simp+
  have is_empty: "([] :: string) = [] \<or> CHR '')'' \<notin> set ([] :: string) \<or>
      (\<forall>p lb rb. \<not> wellParenthesized [] p lb rb)"
    by simp
  have "CHR '')'' \<notin> set ''project(Foo''" by code_simp
  then have no_paren: "''project(Foo'' = [] \<or> CHR '')'' \<notin> set ''project(Foo'' \<or>
      (\<forall>p lb rb. \<not> wellParenthesized ''project(Foo'' p lb rb)"
    by (intro disjI2 disjI1)
  have "snd (scan ?t 0) = None" by code_simp
  then have "\<forall>p lb rb. \<not> wellParenthesized ?t p lb rb"
    by (intro allI scan_None_excludes)
  then have none_valid: "?t = [] \<or> CHR '')'' \<notin> set ?t \<or>
      (\<forall>p lb rb. \<not> wellParenthesized ?t p lb rb)"
    by (intro disjI2)
  from C7_fallback_without_closing_parenthesis [OF ne empty is_empty]
    C7_fallback_without_closing_parenthesis [OF ne unclosed no_paren]
    C7_fallback_without_closing_parenthesis [OF ne mixed none_valid] name
  show ?thesis by (simp only:)
qed

text \<open>
  C8. The token is found in any letter case and with anything before it: when the first
  occurrence of \<open>project\<close>, however capitalised and whatever text precedes it, is
  followed by \<open>(name)\<close> with a name free of whitespace, quotes and \<open>)\<close>, this name is
  returned. So \<open>xproject(A)\<close> and \<open>PROJECT(A)\<close> both give \<open>A\<close>.
\<close>

theorem C8_any_letter_case_and_no_word_boundary:
  assumes "path \<noteq> []"
    and "open_read path w = Some (pre @ tok @ ''('' @ name @ '')'' @ post)"
    and "map foldCase tok = ''project''"
    and "\<forall>q \<in> {0..<length pre}. \<not> match_at (pre @ tok @ ''('' @ name @ '')'' @ post) q"
    and "\<forall>c \<in> set name. \<not> isSpace c \<and> c \<noteq> CHR 0x22 \<and> c \<noteq> CHR '')''"
  shows "TryGuessProjectName path w = name"
proof -
  let ?t = "pre @ tok @ ''('' @ name @ '')'' @ post"
  let ?p = "length pre" and ?lb = "length pre + 7" and ?rb = "length pre + 7 + 1 + length name"
  from assms(3) have len: "length tok = 7"
    by (metis length_map length_project)
  have "match_at ?t ?p"
    unfolding match_at_def startsWith_ci_def foldCase_project length_project
    using assms(3) len by simp
  moreover have "?t ! ?lb = CHR ''(''"
    using len by (simp add: nth_append)
  moreover have "?t ! ?rb = CHR '')''"
    using len by (simp add: nth_append)
  moreover have "\<forall>i \<in> {?lb + 1..<?rb}. ?t ! i \<noteq> CHR '')''"
  proof
    fix i assume "i \<in> {?lb + 1..<?rb}"
    then have "?t ! i = name ! (i - (?lb + 1))" and "i - (?lb + 1) < length name"
      using len by (auto simp: nth_append)
    with assms(5) show "?t ! i \<noteq> CHR '')''" by (metis nth_mem)
  qed
  ultimately have wp: "wellParenthesized ?t ?p ?lb ?rb"
    using len by (simp add: wellParenthesized_def)
  have earlier: "\<forall>q. 0 \<le> q \<and> q < ?p \<longrightarrow> (\<forall>lb' rb'. \<not> wellParenthesized ?t q lb' rb')"
    using assms(4) by (simp add: wellParenthesized_def)
  have "mid ?t (?lb + 1) (?rb - ?lb - 1) = name"
    using len by (simp add: mid_def)
  moreover from assms(5) have "trimmed name = name"
    by (intro trimmed_without_space) blast
  moreover from assms(5) have "parseArguments name 0 False [] = name"
    by (simp add: parseArguments_plain)
  ultimately have "snd (scan ?t 0) = Some name"
    using scan_first_wellParenthesized [OF wp _ earlier] by simp
  then show ?thesis by (simp add: TryGuessProjectName_scan [OF assms(1,2)])
qed

theorem C8_xproject_witness:
  "TryGuessProjectName ''/home/u/proj/CMakeLists.txt'' (cmakeFile ''xproject(A)'') = ''A'' \<and>
   TryGuessProjectName ''/home/u/proj/CMakeLists.txt'' (cmakeFile ''PROJECT(A)'') = ''A''"
proof -
  have ne: "''/home/u/proj/CMakeLists.txt'' \<noteq> []" by simp
  have lower: "open_read ''/home/u/proj/CMakeLists.txt'' (cmakeFile ''xproject(A)'')
      = Some (''x'' @ ''project'' @ ''('' @ ''A'' @ '')'' @ [])"
    by code_simp
  have upper: "open_read ''/home/u/proj/CMakeLists.txt'' (cmakeFile ''PROJECT(A)'')
      = Some ([] @ ''PROJECT'' @ ''('' @ ''A'' @ '')'' @ [])"
    by code_simp
  have fold_lower: "map foldCase ''project'' = ''project''"
    and fold_upper: "map foldCase ''PROJECT'' = ''project''"
    by code_simp+
  have before_lower: "\<forall>q \<in> {0..<length ''x''}. \<not> match_at (''x'' @ ''project'' @ ''('' @ ''A'' @ '')'' @ []) q"
    by code_simp
  have before_upper: "\<forall>q \<in> {0..<length ([] :: string)}. \<not> match_at ([] @ ''PROJECT'' @ ''('' @ ''A'' @ '')'' @ []) q"
    by simp
  have plain: "\<forall>c \<in> set ''A''. \<not> isSpace c \<and> c \<noteq> CHR 0x22 \<and> c \<noteq> CHR '')''"
    by code_simp
  from C8_any_letter_case_and_no_word_boundary [OF ne lower fold_lower before_lower plain]
    C8_any_letter_case_and_no_word_boundary [OF ne upper fold_upper before_upper plain]
  show ?thesis by simp
qed

text \<open>
  C9. The scan should read positions inside the text only. When the text ends with the
  token \<open>project\<close>, the test for \<open>(\<close> reads position 7 of a text of size 7.
\<close>

theorem C9_bracket_test_reads_past_end:
  "bracketReads ''/home/u/proj/CMakeLists.txt'' (cmakeFile ''project'') = [7] \<and>
   \<not> 7 < length ''project''"
  by code_simp

text \<open>
  C10. When the configuration file cannot be opened, the guesser runs no scan and returns
  the name of the file's directory, which is also its result on a readable text in which
  the scan finds nothing.
\<close>

theorem C10_unreadable_file_gives_fallback:
  assumes "path \<noteq> []" and "open_read path w = None"
  shows "TryGuessProjectName path w = dirName (QFileInfo_dir path) \<and>
         bracketReads path w = [] \<and>
         (\<forall>w' text. open_read path w' = Some text \<and> snd (scan text 0) = None \<longrightarrow>
            TryGuessProjectName path w' = TryGuessProjectName path w)"
  using assms by (simp add: TryGuessProjectName_def bracketReads_def)

theorem C10_unreadable_file_witness:
  "''/home/u/proj/CMakeLists.txt'' \<noteq> [] \<and>
   open_read ''/home/u/proj/CMakeLists.txt'' (tmpOnly {}) = None \<and>
   TryGuessProjectName ''/home/u/proj/CMakeLists.txt'' (tmpOnly {}) = ''proj'' \<and>
   TryGuessProjectName ''/home/u/proj/CMakeLists.txt'' (cmakeFile ''add_library(x)'') = ''proj''"
proof -
  have ne: "''/home/u/proj/CMakeLists.txt'' \<noteq> []" by simp
  have closed: "open_read ''/home/u/proj/CMakeLists.txt'' (tmpOnly {}) = None"
    by (simp add: open_read_def tmpOnly_def)
  have name: "dirName (QFileInfo_dir ''/home/u/proj/CMakeLists.txt'') = ''proj''"
    by code_simp
  have readable: "open_read ''/home/u/proj/CMakeLists.txt'' (cmakeFile ''add_library(x)'')
      = Some ''add_library(x)''"
    by code_simp
  have unfound: "snd (scan ''add_library(x)'' 0) = None"
    by code_simp
  note fallback = C10_unreadable_file_gives_fallback [OF ne closed]
  from fallback have same: "TryGuessProjectName ''/home/u/proj/CMakeLists.txt'' w' =
      TryGuessProjectName ''/home/u/proj/CMakeLists.txt'' (tmpOnly {})"
    if "open_read ''/home/u/proj/CMakeLists.txt'' w' = Some t" and "snd (scan t 0) = None"
    for w' t
    using that by blast
  from fallback name same [OF readable unfound] closed show ?thesis by simp
qed

section \<open>Properties of the scaffolding\<close>

text \<open>
  C2. A directory that cannot be created should be reported and stop the operation. The
  source checks the result of the first \<open>mkpath\<close> only: when \<open>build\<close> cannot be
  created, a new project and a project for an existing file both return true and show
  no warning.
\<close>

theorem C2_failed_mkdir_is_silent:
  "(let (ok, w) = CreateNewProject
        \<lparr>existingCMakeFilePath = [], nameEdit = ''Demo'', folderEdit = ''/tmp/x'',
         defaultNewlineFormat = Lf\<rparr> (tmpOnly {''/tmp/x/build''})
    in ok \<and> warnings w = [] \<and> ''/tmp/x/build'' \<notin> dirs w) \<and>
   (let (ok, w) = CreateProjectForExistingCMakeListsTxtFile relativeFilePath
        (attachDialog ''/home/u/proj/CMakeLists.txt'' ''/home/u/proj/build'')
        ((cmakeFile ''project(Demo)'')\<lparr>denied := {''/home/u/proj/build''}\<rparr>)
    in ok \<and> warnings w = [] \<and> ''/home/u/proj/build'' \<notin> dirs w)"
  by code_simp

lemma everyLFafterCR_append:
  assumes "everyLFafterCR a" and "everyLFafterCR b"
  shows "everyLFafterCR (a @ b)"
  unfolding everyLFafterCR_def
proof (intro ballI impI)
  fix i assume i: "i \<in> {0..<length (a @ b)}" and lf: "(a @ b) ! i = CHR 0x0A"
  show "0 < i \<and> (a @ b) ! (i - 1) = CHR 0x0D"
  proof (cases "i < length a")
    case True
    with lf assms(1) have "0 < i \<and> a ! (i - 1) = CHR 0x0D"
      by (simp add: everyLFafterCR_def nth_append)
    with True show ?thesis by (auto simp: nth_append)
  next
    case False
    from False i have "i - length a \<in> {0..<length b}" by auto
    moreover from False lf have "b ! (i - length a) = CHR 0x0A" by (simp add: nth_append)
    ultimately have "0 < i - length a \<and> b ! (i - length a - 1) = CHR 0x0D"
      using assms(2) unfolding everyLFafterCR_def by blast
    with False show ?thesis by (auto simp: nth_append)
  qed
qed

lemma everyLFafterCR_replace_newlines: "everyLFafterCR (replace_newlines s)"
proof (induction s)
  case Nil
  show ?case by (simp add: replace_newlines_def everyLFafterCR_def)
next
  case (Cons c s)
  have "everyLFafterCR (if c = CHR 0x0A then [CHR 0x0D, CHR 0x0A] else [c])"
    by (simp add: everyLFafterCR_def nth_Cons split: nat.split)
  with Cons have "everyLFafterCR ((if c = CHR 0x0A then [CHR 0x0D, CHR 0x0A] else [c]) @ replace_newlines s)"
    by (rule everyLFafterCR_append [rotated])
  then show ?case by (simp add: replace_newlines_def)
qed

lemma keeps_refl: "keeps P w w"
  by (simp add: keeps_def)

lemma files_mkpath_walk: "files (snd (mkpath_walk ds w)) = files w"
  by (induction ds arbitrary: w) simp_all

lemma warnings_mkpath_walk: "warnings (snd (mkpath_walk ds w)) = warnings w"
  by (induction ds arbitrary: w) simp_all

lemma keeps_mkpath: "keeps P w0 w \<Longrightarrow> keeps P w0 (snd (mkpath d w))"
  by (simp add: keeps_def mkpath_def files_mkpath_walk)

lemma keeps_mkdir: "keeps P w0 w \<Longrightarrow> keeps P w0 (snd (mkdir d n w))"
  by (simp add: keeps_def mkdir_def Let_def)

lemma keeps_open_write: "keeps P w0 w \<Longrightarrow> P [] \<Longrightarrow> keeps P w0 (snd (open_write p w))"
  by (simp add: keeps_def open_write_def)

lemma keeps_write_file: "keeps P w0 w \<Longrightarrow> P c \<Longrightarrow> keeps P w0 (write_file p c w)"
  by (simp add: keeps_def write_file_def)

lemma keeps_warning: "keeps P w0 w \<Longrightarrow> keeps P w0 (warning m w)"
  by (simp add: keeps_def warning_def)

lemmas keeps_intros = keeps_refl keeps_mkpath keeps_mkdir keeps_open_write keeps_write_file keeps_warning

lemma keeps_CreateNewProject:
  assumes "P []" and "\<And>s. P (newlined (defaultNewlineFormat dlg) s)"
  shows "keeps P w (snd (CreateNewProject dlg w))"
  unfolding CreateNewProject_def Let_def split_def
  by (simp add: keeps_intros assms)

lemma keeps_CreateProjectForExisting:
  assumes "P []" and "\<And>s. P (newlined (defaultNewlineFormat dlg) s)"
  shows "keeps P w (snd (CreateProjectForExistingCMakeListsTxtFile rel dlg w))"
  unfolding CreateProjectForExistingCMakeListsTxtFile_def Let_def split_def
  by (simp add: keeps_intros assms)

text \<open>
  C5. With the newline format CRLF, every file that a run of the dialog writes, in either
  mode, has no bare line feed: each line feed of its content comes right after a
  carriage return.
\<close>

theorem C5_crlf_leaves_no_bare_line_feed:
  assumes "defaultNewlineFormat dlg = CrLf"
    and "files (snd (CreateProject rel dlg w)) p = Some c"
    and "files w p \<noteq> Some c"
    and "i < length c" and "c ! i = CHR 0x0A"
  shows "0 < i \<and> c ! (i - 1) = CHR 0x0D"
proof -
  have empty: "everyLFafterCR []" by (simp add: everyLFafterCR_def)
  have converted: "everyLFafterCR (newlined (defaultNewlineFormat dlg) s)" for s
    using assms(1) by (simp add: newlined_def everyLFafterCR_replace_newlines)
  have "keeps everyLFafterCR w (snd (CreateProject rel dlg w))"
    unfolding CreateProject_def
    using keeps_CreateNewProject [of everyLFafterCR dlg w, OF empty converted]
      keeps_CreateProjectForExisting [of everyLFafterCR dlg w rel, OF empty converted]
    by simp
  with assms(2,3) have "everyLFafterCR c" by (auto simp: keeps_def)
  with assms(4,5) show ?thesis by (simp add: everyLFafterCR_def)
qed

theorem C5_crlf_witness:
  "defaultNewlineFormat (demoDialog CrLf) = CrLf \<and>
   files (snd (CreateProject relativeFilePath (demoDialog CrLf) (tmpOnly {})))
       ''/tmp/x/src/Demo/main.cc''
     = Some (''int main(int argc, char** argv) {'' @ [CHR 0x0D, CHR 0x0A] @
             ''  '' @ [CHR 0x0D, CHR 0x0A] @ ''}'' @ [CHR 0x0D, CHR 0x0A]) \<and>
   (''int main(int argc, char** argv) {'' @ [CHR 0x0D, CHR 0x0A] @
      ''  '' @ [CHR 0x0D, CHR 0x0A] @ ''}'' @ [CHR 0x0D, CHR 0x0A]) ! 34 = CHR 0x0A \<and>
   (''int main(int argc, char** argv) {'' @ [CHR 0x0D, CHR 0x0A] @
      ''  '' @ [CHR 0x0D, CHR 0x0A] @ ''}'' @ [CHR 0x0D, CHR 0x0A]) ! (34 - 1) = CHR 0x0D"
proof -
  let ?c = "''int main(int argc, char** argv) {'' @ [CHR 0x0D, CHR 0x0A] @
             ''  '' @ [CHR 0x0D, CHR 0x0A] @ ''}'' @ [CHR 0x0D, CHR 0x0A]"
  have fmt: "defaultNewlineFormat (demoDialog CrLf) = CrLf"
    by (simp add: demoDialog_def)
  have written: "files (snd (CreateProject relativeFilePath (demoDialog CrLf) (tmpOnly {})))
      ''/tmp/x/src/Demo/main.cc'' = Some ?c"
    by code_simp
  have fresh: "files (tmpOnly {}) ''/tmp/x/src/Demo/main.cc'' \<noteq> Some ?c"
    by (simp add: tmpOnly_def)
  have inside: "34 < length ?c" by simp
  have lf: "?c ! 34 = CHR 0x0A" by code_simp
  from C5_crlf_leaves_no_bare_line_feed [OF fmt written fresh inside lf] fmt written lf
  show ?thesis by simp
qed

text \<open>
  C3. An attach whose build folder lies on another drive than the configuration file
  should be refused before any input or output. The source has no such test: it creates
  the build folder, writes the descriptor with the absolute path and returns true.
\<close>

theorem C3_cross_root_attach_counterexample:
  "relativeFilePath (QFileInfo_dir ''C:/proj/CMakeLists.txt'') ''D:/build'' = ''D:/build'' \<and>
   (let (ok, w) = CreateProjectForExistingCMakeListsTxtFile relativeFilePath
                    (attachDialog ''C:/proj/CMakeLists.txt'' ''D:/build'') twoDrives
    in ok \<and> warnings w = [] \<and> ''D:/build'' \<in> dirs w \<and>
       files w ''C:/proj/Demo.cide'' =
         Some (''name: Demo\<newline>'' @ ''projectCMakeDir: D:/build\<newline>'' @
               ''buildDir: D:/build\<newline>'' @ ''runDir: D:/build\<newline>'' @
               ''runCmd: ./Demo\<newline>''))"
  by code_simp

lemma warnings_mkpath: "warnings (snd (mkpath d w)) = warnings w"
  by (simp add: mkpath_def warnings_mkpath_walk)

lemma warnings_open_write: "warnings (snd (open_write p w)) = warnings w"
  by (simp add: open_write_def)

lemma findArgEscapes_plain_prefix:
  "CHR ''%'' \<notin> set s \<Longrightarrow> findArgEscapes 0 (s @ r) = findArgEscapes 0 r"
  by (induction s) auto

lemma replaceArgEscapes_plain_prefix:
  "CHR ''%'' \<notin> set s \<Longrightarrow> replaceArgEscapes m a 0 (s @ r) = s @ replaceArgEscapes m a 0 r"
  by (induction s) auto

lemma digitValue_facts:
  "digitValue CHR ''1'' = Some 1" "digitValue CHR ''2'' = Some 2" "digitValue CHR ''3'' = Some 3"
  "digitValue CHR 0x0A = None"
  by code_simp+

lemma existing_descriptor_text:
  assumes "CHR ''%'' \<notin> set name"
  shows "arg (arg (arg existingProjectFileTemplate name) name) r =
           ''name: '' @ name @ ''\<newline>'' @
           ''projectCMakeDir: '' @ r @ ''\<newline>'' @
           ''buildDir: '' @ r @ ''\<newline>'' @
           ''runDir: '' @ r @ ''\<newline>'' @
           ''runCmd: ./'' @ name @ ''\<newline>''"
proof -
  have first: "arg existingProjectFileTemplate name =
      ''name: '' @ name @ ''\<newline>projectCMakeDir: %3\<newline>buildDir: %3\<newline>runDir: %3\<newline>runCmd: ./%2\<newline>''"
    by (simp add: arg_def existingProjectFileTemplate_def escapeAt_def digitValue_facts)
  have second: "arg (''name: '' @ name @ ''\<newline>projectCMakeDir: %3\<newline>buildDir: %3\<newline>runDir: %3\<newline>runCmd: ./%2\<newline>'') name =
      ''name: '' @ name @ ''\<newline>projectCMakeDir: %3\<newline>buildDir: %3\<newline>runDir: %3\<newline>runCmd: ./'' @ name @ ''\<newline>''"
    using assms
    by (simp add: arg_def escapeAt_def digitValue_facts findArgEscapes_plain_prefix
        replaceArgEscapes_plain_prefix)
  have third: "arg (''name: '' @ name @ ''\<newline>projectCMakeDir: %3\<newline>buildDir: %3\<newline>runDir: %3\<newline>runCmd: ./'' @ name @ ''\<newline>'') r =
      ''name: '' @ name @ ''\<newline>projectCMakeDir: '' @ r @ ''\<newline>buildDir: '' @ r @ ''\<newline>runDir: '' @ r @ ''\<newline>runCmd: ./'' @ name @ ''\<newline>''"
    using assms
    by (simp add: arg_def escapeAt_def digitValue_facts findArgEscapes_plain_prefix
        replaceArgEscapes_plain_prefix)
  show ?thesis unfolding first second third by simp
qed

lemma dirs_mkpath_walk_mono: "dirs w \<subseteq> dirs (snd (mkpath_walk ds w))"
  by (induction ds arbitrary: w) (auto, fastforce)

lemma mkpath_walk_created:
  "fst (mkpath_walk ds w) \<Longrightarrow> set ds \<subseteq> dirs (snd (mkpath_walk ds w))"
proof (induction ds arbitrary: w)
  case Nil
  show ?case by simp
next
  case (Cons d ds)
  show ?case
  proof (cases "d \<in> dirs w")
    case True
    with Cons show ?thesis using dirs_mkpath_walk_mono [of w ds] by auto
  next
    case False
    with Cons.prems have ok: "d \<notin> denied w \<and> d \<notin> dom (files w)"
      and run: "fst (mkpath_walk ds (w\<lparr>dirs := insert d (dirs w)\<rparr>))"
      by (auto split: if_splits)
    from Cons.IH [OF run] dirs_mkpath_walk_mono [of "w\<lparr>dirs := insert d (dirs w)\<rparr>" ds] False ok
    show ?thesis by auto
  qed
qed

lemma mkpath_created: "fst (mkpath d w) \<Longrightarrow> d \<in> dirs (snd (mkpath d w))"
  using mkpath_walk_created [of "ancestors d" w] by (auto simp: mkpath_def ancestors_def)

lemma files_mkpath: "files (snd (mkpath d w)) = files w"
  by (simp add: mkpath_def files_mkpath_walk)

text \<open>
  C3, as amended. An attach never looks at the path that \<open>QDir::relativeFilePath\<close>
  returns and has no input error. For a project name without \<open>%\<close>: when the build folder
  can be created and the descriptor file can then be opened, the run creates the build
  folder with its missing parents and no other directory, returns true, shows no warning and writes the
  descriptor, and no other file, with the returned path, relative or not, as
  \<open>projectCMakeDir\<close>, \<open>buildDir\<close> and \<open>runDir\<close>.
\<close>

theorem C3_attach_writes_whatever_path_is_returned:
  assumes "CHR ''%'' \<notin> set (nameEdit dlg)"
    and "fst (mkpath (QDir (folderEdit dlg)) w)"
    and "fst (open_write (filePath (QFileInfo_dir (existingCMakeFilePath dlg))
                              (nameEdit dlg @ ''.cide''))
                  (snd (mkpath (QDir (folderEdit dlg)) w)))"
  shows "fst (CreateProjectForExistingCMakeListsTxtFile rel dlg w) \<and>
         warnings (snd (CreateProjectForExistingCMakeListsTxtFile rel dlg w)) = warnings w \<and>
         dirs (snd (CreateProjectForExistingCMakeListsTxtFile rel dlg w)) =
           dirs (snd (mkpath (QDir (folderEdit dlg)) w)) \<and>
         QDir (folderEdit dlg) \<in> dirs (snd (CreateProjectForExistingCMakeListsTxtFile rel dlg w)) \<and>
         files (snd (CreateProjectForExistingCMakeListsTxtFile rel dlg w)) =
           (files w)
           (filePath (QFileInfo_dir (existingCMakeFilePath dlg)) (nameEdit dlg @ ''.cide'') \<mapsto>
              newlined (defaultNewlineFormat dlg)
                (''name: '' @ nameEdit dlg @ ''\<newline>'' @
                 ''projectCMakeDir: '' @
                   rel (QFileInfo_dir (existingCMakeFilePath dlg)) (folderEdit dlg) @ ''\<newline>'' @
                 ''buildDir: '' @
                   rel (QFileInfo_dir (existingCMakeFilePath dlg)) (folderEdit dlg) @ ''\<newline>'' @
                 ''runDir: '' @
                   rel (QFileInfo_dir (existingCMakeFilePath dlg)) (folderEdit dlg) @ ''\<newline>'' @
                 ''runCmd: ./'' @ nameEdit dlg @ ''\<newline>''))"
  using assms(2,3) mkpath_created [OF assms(2)]
  unfolding CreateProjectForExistingCMakeListsTxtFile_def Let_def split_def
    existing_descriptor_text [OF assms(1)]
  by (simp add: write_file_def warnings_mkpath warnings_open_write open_write_def files_mkpath
      del: append.simps)

theorem C3_attach_witness:
  "CHR ''%'' \<notin> set ''Demo'' \<and>
   fst (mkpath ''/home/u/proj/build'' (cmakeFile ''project(Demo)'')) \<and>
   fst (open_write ''/home/u/proj/Demo.cide''
          (snd (mkpath ''/home/u/proj/build'' (cmakeFile ''project(Demo)'')))) \<and>
   fst (CreateProjectForExistingCMakeListsTxtFile relativeFilePath
          (attachDialog ''/home/u/proj/CMakeLists.txt'' ''/home/u/proj/build'')
          (cmakeFile ''project(Demo)'')) \<and>
   ''/home/u/proj/build'' \<in>
     dirs (snd (CreateProjectForExistingCMakeListsTxtFile relativeFilePath
                  (attachDialog ''/home/u/proj/CMakeLists.txt'' ''/home/u/proj/build'')
                  (cmakeFile ''project(Demo)''))) \<and>
   files (snd (CreateProjectForExistingCMakeListsTxtFile relativeFilePath
                 (attachDialog ''/home/u/proj/CMakeLists.txt'' ''/home/u/proj/build'')
                 (cmakeFile ''project(Demo)''))) ''/home/u/proj/Demo.cide'' =
     Some (''name: Demo\<newline>'' @ ''projectCMakeDir: build\<newline>'' @ ''buildDir: build\<newline>'' @
           ''runDir: build\<newline>'' @ ''runCmd: ./Demo\<newline>'')"
proof -
  let ?dlg = "attachDialog ''/home/u/proj/CMakeLists.txt'' ''/home/u/proj/build''"
  let ?w = "cmakeFile ''project(Demo)''"
  have descriptor:
    "filePath (QFileInfo_dir (existingCMakeFilePath ?dlg)) (nameEdit ?dlg @ ''.cide'')
      = ''/home/u/proj/Demo.cide''"
    by code_simp
  have folder: "QDir (folderEdit ?dlg) = ''/home/u/proj/build''"
    by code_simp
  have name: "nameEdit ?dlg = ''Demo''" and fmt: "defaultNewlineFormat ?dlg = Lf"
    by (simp_all add: attachDialog_def)
  have relative: "relativeFilePath (QFileInfo_dir (existingCMakeFilePath ?dlg)) (folderEdit ?dlg)
      = ''build''"
    by code_simp
  have plain: "CHR ''%'' \<notin> set ''Demo''" by simp
  have created: "fst (mkpath ''/home/u/proj/build'' ?w)" by code_simp
  have opened: "fst (open_write ''/home/u/proj/Demo.cide'' (snd (mkpath ''/home/u/proj/build'' ?w)))"
    by code_simp
  have plain': "CHR ''%'' \<notin> set (nameEdit ?dlg)" unfolding name by (rule plain)
  from created have created': "fst (mkpath (QDir (folderEdit ?dlg)) ?w)" by (simp only: folder)
  from opened have opened': "fst (open_write (filePath (QFileInfo_dir (existingCMakeFilePath ?dlg))
                              (nameEdit ?dlg @ ''.cide''))
                  (snd (mkpath (QDir (folderEdit ?dlg)) ?w)))"
    by (simp only: descriptor folder)
  have descriptor':
    "filePath (QFileInfo_dir (existingCMakeFilePath ?dlg)) ''Demo.cide'' = ''/home/u/proj/Demo.cide''"
    by code_simp
  note run = C3_attach_writes_whatever_path_is_returned
    [OF plain' created' opened', of relativeFilePath, unfolded descriptor folder name fmt relative]
  from run have "fst (CreateProjectForExistingCMakeListsTxtFile relativeFilePath ?dlg ?w)"
    by (rule conjunct1)
  moreover from run have "''/home/u/proj/build'' \<in>
      dirs (snd (CreateProjectForExistingCMakeListsTxtFile relativeFilePath ?dlg ?w))"
    by blast
  moreover from run have
    "files (snd (CreateProjectForExistingCMakeListsTxtFile relativeFilePath ?dlg ?w))
       ''/home/u/proj/Demo.cide'' =
     Some (''name: Demo\<newline>'' @ ''projectCMakeDir: build\<newline>'' @ ''buildDir: build\<newline>'' @
           ''runDir: build\<newline>'' @ ''runCmd: ./Demo\<newline>'')"
    by (simp add: newlined_def descriptor')
  ultimately have "fst (CreateProjectForExistingCMakeListsTxtFile relativeFilePath ?dlg ?w)"
    and "''/home/u/proj/build'' \<in>
           dirs (snd (CreateProjectForExistingCMakeListsTxtFile relativeFilePath ?dlg ?w))"
    and "files (snd (CreateProjectForExistingCMakeListsTxtFile relativeFilePath ?dlg ?w))
           ''/home/u/proj/Demo.cide'' =
         Some (''name: Demo\<newline>'' @ ''projectCMakeDir: build\<newline>'' @ ''buildDir: build\<newline>'' @
               ''runDir: build\<newline>'' @ ''runCmd: ./Demo\<newline>'')"
    by blast+
  with plain created opened show ?thesis by blast
qed

lemma mkpath_walk_ok:
  "\<forall>d \<in> set ds. d \<notin> denied w \<and> d \<notin> dom (files w) \<Longrightarrow>
     mkpath_walk ds w = (True, w\<lparr>dirs := dirs w \<union> set ds\<rparr>)"
proof (induction ds arbitrary: w)
  case Nil
  show ?case by simp
next
  case (Cons d ds)
  show ?case
  proof (cases "d \<in> dirs w")
    case True
    then have "dirs w \<union> set (d # ds) = dirs w \<union> set ds" by auto
    with True Cons show ?thesis by simp
  next
    case False
    have "insert d (dirs w) \<union> set ds = dirs w \<union> set (d # ds)" by auto
    with False Cons.prems Cons.IH [of "w\<lparr>dirs := insert d (dirs w)\<rparr>"] show ?thesis by auto
  qed
qed

lemma mkdir_snd:
  assumes "filePath d n \<notin> denied w" and "filePath d n \<notin> dom (files w)"
    and "QFileInfo_dir (filePath d n) \<in> dirs w"
  shows "snd (mkdir d n w) = w\<lparr>dirs := insert (filePath d n) (dirs w)\<rparr>"
  using assms by (auto simp: mkdir_def Let_def insert_absorb)

lemma open_write_ok:
  assumes "p \<notin> denied w" and "p \<notin> dirs w" and "QFileInfo_dir p \<in> dirs w"
  shows "open_write p w = (True, w\<lparr>files := (files w)(p \<mapsto> [])\<rparr>)"
  using assms by (simp add: open_write_def)

lemma demo_paths:
  "ancestors ''/tmp/x'' = [''/tmp'', ''/tmp/x'']"
  "QFileInfo_dir ''/tmp/x/Demo.cide'' = ''/tmp/x''"
  "QFileInfo_dir ''/tmp/x/CMakeLists.txt'' = ''/tmp/x''"
  "QFileInfo_dir ''/tmp/x/src'' = ''/tmp/x''"
  "QFileInfo_dir ''/tmp/x/src/Demo'' = ''/tmp/x/src''"
  "QFileInfo_dir ''/tmp/x/src/Demo/main.cc'' = ''/tmp/x/src/Demo''"
  "QFileInfo_dir ''/tmp/x/build'' = ''/tmp/x''"
  by code_simp+

lemma demo_texts:
  "arg (arg projectFileTemplate ''Demo'') ''Demo'' =
     ''name: Demo\<newline>'' @ ''projectCMakeDir: build\<newline>'' @ ''buildDir: build\<newline>'' @
     ''buildTarget: Demo\<newline>'' @ ''runDir: build\<newline>'' @ ''runCmd: ./Demo\<newline>''"
  "arg (arg (arg cmakeListsTemplate ''Demo'') ''Demo'') ''Demo'' =
     ''cmake_minimum_required(VERSION 3.0)\<newline>'' @
     ''\<newline>'' @
     ''project(Demo)\<newline>'' @
     ''\<newline>'' @
     ''# To set a C++ standard:\<newline>'' @
     ''# set(CMAKE_CXX_STANDARD 11)\<newline>'' @
     ''\<newline>'' @
     ''add_executable(Demo\<newline>'' @
     ''  src/Demo/main.cc\<newline>'' @
     '')\<newline>'' @
     ''target_compile_options(Demo PUBLIC\<newline>'' @
     ''  '' @ [CHR 0x22] @ ''$<$<COMPILE_LANGUAGE:CXX>:-Wall>'' @ [CHR 0x22] @ ''\<newline>'' @
     ''  '' @ [CHR 0x22] @ '';$<$<COMPILE_LANGUAGE:CXX>:-Wextra>'' @ [CHR 0x22] @ ''\<newline>'' @
     ''  '' @ [CHR 0x22] @ '';$<$<COMPILE_LANGUAGE:CXX>:-O2>'' @ [CHR 0x22] @ ''\<newline>'' @
     ''  '' @ [CHR 0x22] @ '';$<$<COMPILE_LANGUAGE:CXX>:-msse2>'' @ [CHR 0x22] @ ''\<newline>'' @
     ''  '' @ [CHR 0x22] @ '';$<$<COMPILE_LANGUAGE:CXX>:-msse3>'' @ [CHR 0x22] @ ''\<newline>'' @
     '')\<newline>''"
  by code_simp+

lemma CreateNewProject_steps:
  assumes "mkpath (QDir (folderEdit dlg)) w0 = (True, w1)"
    and "open_write (filePath (QDir (folderEdit dlg)) (nameEdit dlg @ ''.cide'')) w1 = (True, w2)"
    and "open_write (filePath (QDir (folderEdit dlg)) ''CMakeLists.txt'')
           (write_file (filePath (QDir (folderEdit dlg)) (nameEdit dlg @ ''.cide''))
              (newlined (defaultNewlineFormat dlg)
                 (arg (arg projectFileTemplate (nameEdit dlg)) (nameEdit dlg))) w2) = (True, w4)"
    and "snd (mkdir (QDir (folderEdit dlg)) ''src''
           (write_file (filePath (QDir (folderEdit dlg)) ''CMakeLists.txt'')
              (newlined (defaultNewlineFormat dlg)
                 (arg (arg (arg cmakeListsTemplate (nameEdit dlg)) (nameEdit dlg)) (nameEdit dlg)))
              w4)) = w6"
    and "snd (cd (QDir (folderEdit dlg)) ''src'' w6) = srcDir1"
    and "snd (mkdir srcDir1 (nameEdit dlg) w6) = w7"
    and "snd (cd srcDir1 (nameEdit dlg) w7) = srcDir2"
    and "open_write (filePath srcDir2 ''main.cc'') w7 = (True, w8)"
    and "snd (mkdir (QDir (folderEdit dlg)) ''build''
           (write_file (filePath srcDir2 ''main.cc'')
              (newlined (defaultNewlineFormat dlg) mainFileTemplate) w8)) = w10"
  shows "CreateNewProject dlg w0 = (True, w10)"
  unfolding CreateNewProject_def Let_def split_def
  by (simp add: assms)

lemma demo_dialog:
  "QDir (folderEdit (demoDialog fmt)) = ''/tmp/x''"
  "nameEdit (demoDialog fmt) = ''Demo''"
  "defaultNewlineFormat (demoDialog fmt) = fmt"
  by (simp_all add: demoDialog_def QDir_def)

lemma demo_file_paths:
  "filePath ''/tmp/x'' ''Demo.cide'' = ''/tmp/x/Demo.cide''"
  "filePath ''/tmp/x'' ''CMakeLists.txt'' = ''/tmp/x/CMakeLists.txt''"
  "filePath ''/tmp/x'' ''src'' = ''/tmp/x/src''"
  "filePath ''/tmp/x/src'' ''Demo'' = ''/tmp/x/src/Demo''"
  "filePath ''/tmp/x/src/Demo'' ''main.cc'' = ''/tmp/x/src/Demo/main.cc''"
  "filePath ''/tmp/x'' ''build'' = ''/tmp/x/build''"
  by code_simp+

text \<open>
  C4. A new project \<open>Demo\<close> in \<open>/tmp/x\<close>, on any file system where the paths concerned
  are not refused and where no file stands at a directory's path nor a directory at a
  file's path, succeeds without warning. It creates the directories \<open>/tmp/x\<close>,
  \<open>/tmp/x/src/Demo\<close> and \<open>/tmp/x/build\<close>, each with its missing parents \<open>/tmp\<close>
  and \<open>/tmp/x/src\<close>, and no other; it writes the files \<open>/tmp/x/Demo.cide\<close>,
  \<open>/tmp/x/CMakeLists.txt\<close> and \<open>/tmp/x/src/Demo/main.cc\<close> and no other; the descriptor
  holds the six fields \<open>name\<close>, \<open>projectCMakeDir\<close>, \<open>buildDir\<close>, \<open>buildTarget\<close>,
  \<open>runDir\<close> and \<open>runCmd\<close> in this order.
\<close>

theorem C4_demo_scaffold:
  assumes "\<forall>d \<in> {''/tmp'', ''/tmp/x'', ''/tmp/x/src'', ''/tmp/x/src/Demo'', ''/tmp/x/build''}.
             d \<notin> denied w \<and> d \<notin> dom (files w)"
    and "\<forall>p \<in> {''/tmp/x/Demo.cide'', ''/tmp/x/CMakeLists.txt'', ''/tmp/x/src/Demo/main.cc''}.
           p \<notin> denied w \<and> p \<notin> dirs w"
  shows "CreateNewProject (demoDialog fmt) w =
     (True,
      w\<lparr>dirs := dirs w \<union>
                {''/tmp'', ''/tmp/x'', ''/tmp/x/src'', ''/tmp/x/src/Demo'', ''/tmp/x/build''},
        files := (files w)
         (''/tmp/x/Demo.cide'' \<mapsto>
            newlined fmt
              (''name: Demo\<newline>'' @ ''projectCMakeDir: build\<newline>'' @ ''buildDir: build\<newline>'' @
               ''buildTarget: Demo\<newline>'' @ ''runDir: build\<newline>'' @ ''runCmd: ./Demo\<newline>''),
          ''/tmp/x/CMakeLists.txt'' \<mapsto>
            newlined fmt
 (''cmake_minimum_required(VERSION 3.0)\<newline>'' @
     ''\<newline>'' @
     ''project(Demo)\<newline>'' @
     ''\<newline>'' @
     ''# To set a C++ standard:\<newline>'' @
     ''# set(CMAKE_CXX_STANDARD 11)\<newline>'' @
     ''\<newline>'' @
     ''add_executable(Demo\<newline>'' @
     ''  src/Demo/main.cc\<newline>'' @
     '')\<newline>'' @
     ''target_compile_options(Demo PUBLIC\<newline>'' @
     ''  '' @ [CHR 0x22] @ ''$<$<COMPILE_LANGUAGE:CXX>:-Wall>'' @ [CHR 0x22] @ ''\<newline>'' @
     ''  '' @ [CHR 0x22] @ '';$<$<COMPILE_LANGUAGE:CXX>:-Wextra>'' @ [CHR 0x22] @ ''\<newline>'' @
     ''  '' @ [CHR 0x22] @ '';$<$<COMPILE_LANGUAGE:CXX>:-O2>'' @ [CHR 0x22] @ ''\<newline>'' @
     ''  '' @ [CHR 0x22] @ '';$<$<COMPILE_LANGUAGE:CXX>:-msse2>'' @ [CHR 0x22] @ ''\<newline>'' @
     ''  '' @ [CHR 0x22] @ '';$<$<COMPILE_LANGUAGE:CXX>:-msse3>'' @ [CHR 0x22] @ ''\<newline>'' @
     '')\<newline>''),
          ''/tmp/x/src/Demo/main.cc'' \<mapsto>
            newlined fmt (''int main(int argc, char** argv) {\<newline>'' @ ''  \<newline>'' @ ''}\<newline>''))\<rparr>)"
proof -
  let ?dlg = "demoDialog fmt"
  let ?c1 = "newlined fmt (arg (arg projectFileTemplate ''Demo'') ''Demo'')"
  let ?c2 = "newlined fmt (arg (arg (arg cmakeListsTemplate ''Demo'') ''Demo'') ''Demo'')"
  let ?c3 = "newlined fmt mainFileTemplate"
  from assms(1) have free:
    "''/tmp'' \<notin> denied w" "''/tmp'' \<notin> dom (files w)"
    "''/tmp/x'' \<notin> denied w" "''/tmp/x'' \<notin> dom (files w)"
    "''/tmp/x/src'' \<notin> denied w" "''/tmp/x/src'' \<notin> dom (files w)"
    "''/tmp/x/src/Demo'' \<notin> denied w" "''/tmp/x/src/Demo'' \<notin> dom (files w)"
    "''/tmp/x/build'' \<notin> denied w" "''/tmp/x/build'' \<notin> dom (files w)"
    by simp_all
  from assms(2) have writable:
    "''/tmp/x/Demo.cide'' \<notin> denied w" "''/tmp/x/Demo.cide'' \<notin> dirs w"
    "''/tmp/x/CMakeLists.txt'' \<notin> denied w" "''/tmp/x/CMakeLists.txt'' \<notin> dirs w"
    "''/tmp/x/src/Demo/main.cc'' \<notin> denied w" "''/tmp/x/src/Demo/main.cc'' \<notin> dirs w"
    by simp_all
  define w1 where "w1 = w\<lparr>dirs := dirs w \<union> {''/tmp'', ''/tmp/x''}\<rparr>"
  define w2 where "w2 = w1\<lparr>files := (files w1)(''/tmp/x/Demo.cide'' \<mapsto> [])\<rparr>"
  define w4 where "w4 = (write_file ''/tmp/x/Demo.cide'' ?c1 w2)
                          \<lparr>files := (files (write_file ''/tmp/x/Demo.cide'' ?c1 w2))
                                      (''/tmp/x/CMakeLists.txt'' \<mapsto> [])\<rparr>"
  define w5 where "w5 = write_file ''/tmp/x/CMakeLists.txt'' ?c2 w4"
  define w6 where "w6 = w5\<lparr>dirs := insert ''/tmp/x/src'' (dirs w5)\<rparr>"
  define w7 where "w7 = w6\<lparr>dirs := insert ''/tmp/x/src/Demo'' (dirs w6)\<rparr>"
  define w8 where "w8 = w7\<lparr>files := (files w7)(''/tmp/x/src/Demo/main.cc'' \<mapsto> [])\<rparr>"
  define w9 where "w9 = write_file ''/tmp/x/src/Demo/main.cc'' ?c3 w8"
  define w10 where "w10 = w9\<lparr>dirs := insert ''/tmp/x/build'' (dirs w9)\<rparr>"
  have s1: "mkpath (QDir (folderEdit ?dlg)) w = (True, w1)"
    using free mkpath_walk_ok [of "[''/tmp'', ''/tmp/x'']" w]
    by (simp add: demo_dialog mkpath_def demo_paths(1) w1_def Un_commute insert_commute)
  have s2: "open_write (filePath (QDir (folderEdit ?dlg)) (nameEdit ?dlg @ ''.cide'')) w1
      = (True, w2)"
    using writable
    by (simp add: demo_dialog demo_file_paths open_write_ok demo_paths w1_def w2_def)
  have s3: "open_write (filePath (QDir (folderEdit ?dlg)) ''CMakeLists.txt'')
           (write_file (filePath (QDir (folderEdit ?dlg)) (nameEdit ?dlg @ ''.cide''))
              (newlined (defaultNewlineFormat ?dlg)
                 (arg (arg projectFileTemplate (nameEdit ?dlg)) (nameEdit ?dlg))) w2) = (True, w4)"
    using writable
    by (simp add: demo_dialog demo_file_paths open_write_ok demo_paths w1_def w2_def w4_def
        write_file_def)
  have s4: "snd (mkdir (QDir (folderEdit ?dlg)) ''src''
           (write_file (filePath (QDir (folderEdit ?dlg)) ''CMakeLists.txt'')
              (newlined (defaultNewlineFormat ?dlg)
                 (arg (arg (arg cmakeListsTemplate (nameEdit ?dlg)) (nameEdit ?dlg)) (nameEdit ?dlg)))
              w4)) = w6"
    using free
    by (simp add: demo_dialog demo_file_paths mkdir_snd demo_paths w1_def w2_def w4_def w5_def
        w6_def write_file_def)
  have s5: "snd (cd (QDir (folderEdit ?dlg)) ''src'' w6) = ''/tmp/x/src''"
    by (simp add: demo_dialog demo_file_paths cd_def w6_def)
  have s6: "snd (mkdir ''/tmp/x/src'' (nameEdit ?dlg) w6) = w7"
    using free
    by (simp add: demo_dialog demo_file_paths mkdir_snd demo_paths w1_def w2_def w4_def w5_def
        w6_def w7_def write_file_def)
  have s7: "snd (cd ''/tmp/x/src'' (nameEdit ?dlg) w7) = ''/tmp/x/src/Demo''"
    by (simp add: demo_dialog demo_file_paths cd_def w7_def)
  have s8: "open_write (filePath ''/tmp/x/src/Demo'' ''main.cc'') w7 = (True, w8)"
    using writable
    by (simp add: demo_file_paths open_write_ok demo_paths w1_def w2_def w4_def w5_def
        w6_def w7_def w8_def write_file_def)
  have s9: "snd (mkdir (QDir (folderEdit ?dlg)) ''build''
           (write_file (filePath ''/tmp/x/src/Demo'' ''main.cc'')
              (newlined (defaultNewlineFormat ?dlg) mainFileTemplate) w8)) = w10"
    using free
    by (simp add: demo_dialog demo_file_paths mkdir_snd demo_paths w1_def w2_def w4_def w5_def
        w6_def w7_def w8_def w9_def w10_def write_file_def)
  have "CreateNewProject ?dlg w = (True, w10)"
    by (rule CreateNewProject_steps [OF s1 s2 s3 s4 s5 s6 s7 s8 s9])
  moreover have "w10 = w\<lparr>dirs := dirs w \<union>
                {''/tmp'', ''/tmp/x'', ''/tmp/x/src'', ''/tmp/x/src/Demo'', ''/tmp/x/build''},
        files := (files w)(''/tmp/x/Demo.cide'' \<mapsto> ?c1, ''/tmp/x/CMakeLists.txt'' \<mapsto> ?c2,
          ''/tmp/x/src/Demo/main.cc'' \<mapsto> ?c3)\<rparr>"
    by (simp add: w1_def w2_def w4_def w5_def w6_def w7_def w8_def w9_def w10_def write_file_def
        insert_commute)
  ultimately show ?thesis
    by (simp only: demo_texts mainFileTemplate_def)
qed

theorem C4_demo_witness:
  "fst (CreateNewProject (demoDialog Lf) (tmpOnly {})) \<and>
   warnings (snd (CreateNewProject (demoDialog Lf) (tmpOnly {}))) = [] \<and>
   dirs (snd (CreateNewProject (demoDialog Lf) (tmpOnly {}))) - dirs (tmpOnly {}) =
     {''/tmp/x'', ''/tmp/x/src'', ''/tmp/x/src/Demo'', ''/tmp/x/build''} \<and>
   files (snd (CreateNewProject (demoDialog Lf) (tmpOnly {}))) ''/tmp/x/Demo.cide'' =
     Some (''name: Demo\<newline>'' @ ''projectCMakeDir: build\<newline>'' @ ''buildDir: build\<newline>'' @
           ''buildTarget: Demo\<newline>'' @ ''runDir: build\<newline>'' @ ''runCmd: ./Demo\<newline>'')"
proof -
  have free: "\<forall>d \<in> {''/tmp'', ''/tmp/x'', ''/tmp/x/src'', ''/tmp/x/src/Demo'', ''/tmp/x/build''}.
      d \<notin> denied (tmpOnly {}) \<and> d \<notin> dom (files (tmpOnly {}))"
    by (simp add: tmpOnly_def)
  have writable:
    "\<forall>p \<in> {''/tmp/x/Demo.cide'', ''/tmp/x/CMakeLists.txt'', ''/tmp/x/src/Demo/main.cc''}.
      p \<notin> denied (tmpOnly {}) \<and> p \<notin> dirs (tmpOnly {})"
    by (simp add: tmpOnly_def)
  note run = C4_demo_scaffold [OF free writable, of Lf]
  have "dirs (tmpOnly {}) \<union>
          {''/tmp'', ''/tmp/x'', ''/tmp/x/src'', ''/tmp/x/src/Demo'', ''/tmp/x/build''}
        - dirs (tmpOnly {}) =
        {''/tmp/x'', ''/tmp/x/src'', ''/tmp/x/src/Demo'', ''/tmp/x/build''}"
    by code_simp
  with run show ?thesis by (simp add: tmpOnly_def newlined_def)
qed

end
